theory Spec2Isabelle
  imports Complex_Main "HOL-Library.Multiset"
begin

section \<open>Data model of fatiando.potential.harvester\<close>

text \<open>
  Exceptions of the Python source are values of \<open>err\<close>; a function that can raise
  returns \<open>err + 'a\<close> with \<open>Inl\<close> for the exception.
\<close>

datatype err =
  ValueError | NotImplementedError | IndexError | KeyError | AttributeError | ZeroDivisionError

text \<open>
  Floating-point numbers are the elements of a type \<open>'a\<close> of which only the order is
  assumed to be linear (no value is a NaN). Its arithmetic \<open>+\<close>, \<open>-\<close>, \<open>*\<close>, \<open>/\<close>, \<open>abs\<close>
  is left uninterpreted: no law of the real numbers (associativity, exactness of a
  quotient) is used in a statement about the code, and every expression keeps the order
  of operations of the source. The closed theorems run the model on the reals, at values
  (small integers and dyadic fractions) at which double arithmetic is exact.

  A dictionary of physical properties (\<open>props\<close>) is an association list; \<open>p in props\<close>
  is \<open>has_prop\<close>, \<open>props[p]\<close> is \<open>map_of\<close>, and \<open>for p in props\<close> runs over the keys.
\<close>

type_synonym 'a props = "(string \<times> 'a) list"

definition has_prop :: "string \<Rightarrow> 'a props \<Rightarrow> bool" where
  "has_prop p ps = (p \<in> set (map fst ps))"

text \<open>
  Modelled from the spec: the cell (prism) class is not part of the sources. Following
  the mesh interface of the spec a cell is a record of its bounds
  (x1, x2, y1, y2, z1, z2); the properties it carries are a map from property names to
  values.
\<close>

record 'a cell =
  x1 :: 'a
  x2 :: 'a
  y1 :: 'a
  y2 :: 'a
  z1 :: 'a
  z2 :: 'a
  cprops :: "string \<rightharpoonup> 'a"

text \<open>
  Modelled from the spec: \<open>cell.addprop(p, v)\<close>, absent from the sources, stores the
  value \<open>v\<close> of the physical property \<open>p\<close> on the cell.
\<close>

definition addprop :: "string \<Rightarrow> 'a \<Rightarrow> 'a cell \<Rightarrow> 'a cell" where
  "addprop p v c = c\<lparr>cprops := (cprops c)(p \<mapsto> v)\<rparr>"

text \<open>
  Modelled from the spec: the mesh class (fatiando.mesher.ddd.PrismMesh) is not part of
  the sources. Following the mesh interface of the spec it is an integer-indexable
  collection of cell records with a \<open>shape\<close> triple (nz, ny, nx), a \<open>dims\<close> triple and
  possibly absent (masked) entries. The sources do not say whether \<open>mesh[i]\<close> hands out
  the cell object the mesh keeps or a new one; the model takes the first reading, with
  the mesh as an explicit store, and no statement about the code below rests on it
  unless it says so.
\<close>

record 'a mesh =
  shape :: "int \<times> int \<times> int"
  dims :: "'a \<times> 'a \<times> 'a"
  cells :: "'a cell option list"

text \<open>
  Modelled from the spec: \<open>mesh.size\<close>, the number of cells of the regular grid of the
  given shape (linear index = i + j*nx + k*nx*ny).
\<close>

definition msize :: "'a mesh \<Rightarrow> int" where
  "msize m = (case shape m of (nz, ny, nx) \<Rightarrow> nz * ny * nx)"

text \<open>
  Modelled from the spec: \<open>mesh[i]\<close> is the cell stored at the linear index \<open>i\<close>, or
  nothing for a masked cell; an index outside the collection raises.
\<close>

definition mesh_get :: "'a mesh \<Rightarrow> int \<Rightarrow> err + 'a cell option" where
  "mesh_get m i =
     (if 0 \<le> i \<and> i < int (length (cells m)) then Inr (cells m ! nat i) else Inl IndexError)"

text \<open>The store after the cell at index \<open>i\<close> has been modified in place.\<close>

definition mesh_put :: "'a mesh \<Rightarrow> int \<Rightarrow> 'a cell \<Rightarrow> 'a mesh" where
  "mesh_put m i c = m\<lparr>cells := (cells m)[nat i := Some c]\<rparr>"

subsection \<open>External numeric functions\<close>

datatype component = Gz | Gxx | Gxy | Gxz | Gyy | Gyz | Gzz

text \<open>
  The forward kernels of \<open>fatiando.potential.prism\<close> are external: a kernel maps a
  component, the observation points, a list of cells and an optional density override
  to an array of values. With \<open>numpy.linalg.norm\<close>, \<open>math.sqrt\<close> and the conversion of
  an integer to a float they are the parameter \<open>lib\<close> of the model.
\<close>

type_synonym 'a kernel =
  "component \<Rightarrow> 'a list \<Rightarrow> 'a list \<Rightarrow> 'a list \<Rightarrow> 'a cell option list \<Rightarrow> 'a option \<Rightarrow> 'a list"

record 'a lib =
  prism_kernel :: "'a kernel"
  linalg_norm :: "'a list \<Rightarrow> int \<Rightarrow> 'a"
  math_sqrt :: "'a \<Rightarrow> 'a"
  to_float :: "int \<Rightarrow> 'a"

text \<open>
  Arithmetic of one-dimensional numpy arrays. A binary operation works elementwise on
  arrays of one length and stretches an array of length 1 to the length of the other;
  any other pair of lengths raises. The in-place form keeps the length of its target.
  Python's \<open>sum\<close> adds from the left, starting from 0.
\<close>

definition broadcast :: "('a \<Rightarrow> 'a \<Rightarrow> 'a) \<Rightarrow> 'a list \<Rightarrow> 'a list \<Rightarrow> err + 'a list" where
  "broadcast f a b =
     (if length a = length b then Inr (map2 f a b)
      else if length b = 1 then Inr (map (\<lambda>x. f x (hd b)) a)
      else if length a = 1 then Inr (map (\<lambda>y. f (hd a) y) b)
      else Inl ValueError)"

definition array_iadd :: "('a::{linorder,zero,one,plus,minus,times,inverse,abs}) list \<Rightarrow> 'a list \<Rightarrow> err + 'a list" where
  "array_iadd a b =
     (if length a = length b then Inr (map2 (+) a b)
      else if length b = 1 then Inr (map (\<lambda>x. x + hd b) a)
      else Inl ValueError)"

definition lift2 :: "('x \<Rightarrow> 'y \<Rightarrow> err + 'z) \<Rightarrow> err + 'x \<Rightarrow> err + 'y \<Rightarrow> err + 'z" where
  "lift2 f x y =
     (case x of Inl e \<Rightarrow> Inl e
      | Inr a \<Rightarrow> (case y of Inl e \<Rightarrow> Inl e | Inr b \<Rightarrow> f a b))"

definition py_sum :: "('a::{linorder,zero,one,plus,minus,times,inverse,abs}) list \<Rightarrow> 'a" where
  "py_sum xs = foldl (+) 0 xs"

subsection \<open>Data modules\<close>

datatype dmkind = DBase | DLin component | DI2

text \<open>
  A data module: its class (\<open>kind\<close>), the attributes set by \<open>DMPrism.__init__\<close>, and
  the \<open>estimate\<close> list of the second-invariant class (\<open>dm_estimate\<close>).
\<close>

record 'a dm =
  kind :: dmkind
  data :: "'a list"
  predicted :: "'a list"
  xp :: "'a list"
  yp :: "'a list"
  zp :: "'a list"
  norm :: int
  weight :: 'a
  effect :: "int \<rightharpoonup> 'a list"
  prop_type :: "string option"
  dm_estimate :: "int list"

text \<open>
  \<open>DMPrism.__init__\<close>. The length test is the chained comparison
  \<open>len(xp) != len(yp) != len(zp) != len(data)\<close>, which Python evaluates as the
  conjunction of the three adjacent comparisons.
\<close>

definition DMPrism_init ::
  "('a::{linorder,zero,one,plus,minus,times,inverse,abs}) lib \<Rightarrow> 'a list \<Rightarrow> 'a list \<Rightarrow> 'a list \<Rightarrow> 'a list \<Rightarrow> int \<Rightarrow> err + 'a dm" where
  "DMPrism_init lib dat xs ys zs nrm =
     (if nrm \<notin> {1, 2} then Inl ValueError
      else if length xs \<noteq> length ys \<and> length ys \<noteq> length zs \<and> length zs \<noteq> length dat
        then Inl ValueError
      else Inr \<lparr>kind = DBase, data = dat, predicted = replicate (length dat) 0,
                xp = xs, yp = ys, zp = zs, norm = nrm, weight = 1 / linalg_norm lib dat nrm,
                effect = Map.empty, prop_type = None, dm_estimate = []\<rparr>)"

text \<open>The derived classes call the base constructor and set \<open>prop_type = 'density'\<close>.\<close>

definition DMPrism_sub_init ::
  "('a::{linorder,zero,one,plus,minus,times,inverse,abs}) lib \<Rightarrow> dmkind \<Rightarrow> 'a list \<Rightarrow> 'a list \<Rightarrow> 'a list \<Rightarrow> 'a list \<Rightarrow> int \<Rightarrow> err + 'a dm" where
  "DMPrism_sub_init lib k dat xs ys zs nrm =
     (case DMPrism_init lib dat xs ys zs nrm of
        Inl e \<Rightarrow> Inl e
      | Inr d \<Rightarrow> Inr (d\<lparr>kind := k, prop_type := Some ''density'', dm_estimate := []\<rparr>))"

definition in_props :: "string option \<Rightarrow> 'a props \<Rightarrow> bool" where
  "in_props pt ps = (case pt of None \<Rightarrow> False | Some p \<Rightarrow> has_prop p ps)"

text \<open>\<open>misfit\<close>: \<open>self.weight*numpy.linalg.norm(self.data - predicted, self.norm)\<close>.\<close>

definition misfit :: "('a::{linorder,zero,one,plus,minus,times,inverse,abs}) lib \<Rightarrow> 'a dm \<Rightarrow> 'a list \<Rightarrow> err + 'a" where
  "misfit lib d pr =
     (case broadcast (-) (data d) pr of
        Inl e \<Rightarrow> Inl e
      | Inr r \<Rightarrow> Inr (weight d * linalg_norm lib r (norm d)))"

text \<open>
  \<open>_effect_of_prism\<close>: not implemented in the base class; a component module calls its
  kernel on the single cell \<open>mesh[index]\<close> with \<open>dens = props[prop_type]\<close>.
\<close>

definition effect_of_prism :: "'a lib \<Rightarrow> 'a mesh \<Rightarrow> 'a dm \<Rightarrow> int \<Rightarrow> 'a props \<Rightarrow> err + 'a list" where
  "effect_of_prism lib m d i ps =
     (case kind d of
        DLin c \<Rightarrow>
          (case mesh_get m i of
             Inl e \<Rightarrow> Inl e
           | Inr co \<Rightarrow>
               (case prop_type d of
                  None \<Rightarrow> Inl KeyError
                | Some p \<Rightarrow>
                    (case map_of ps p of
                       None \<Rightarrow> Inl KeyError
                     | Some v \<Rightarrow> Inr (prism_kernel lib c (xp d) (yp d) (zp d) [co] (Some v)))))
      | _ \<Rightarrow> Inl NotImplementedError)"

text \<open>\<open>DMPrism.update\<close> and \<open>DMPrism.testdrive\<close> (the mesh is only read).\<close>

definition DMPrism_update :: "('a::{linorder,zero,one,plus,minus,times,inverse,abs}) lib \<Rightarrow> 'a mesh \<Rightarrow> 'a dm \<Rightarrow> int \<times> 'a props \<Rightarrow> err + 'a dm" where
  "DMPrism_update lib m d el =
     (case el of (i, ps) \<Rightarrow>
        if in_props (prop_type d) ps then
          (case (case effect d i of
                   None \<Rightarrow> effect_of_prism lib m d i ps
                 | Some e \<Rightarrow> Inr e) of
             Inl e \<Rightarrow> Inl e
           | Inr e \<Rightarrow>
               (case array_iadd (predicted d) e of
                  Inl e' \<Rightarrow> Inl e'
                | Inr pr \<Rightarrow> Inr (d\<lparr>predicted := pr, effect := (effect d)(i := None)\<rparr>)))
        else Inr d)"

definition DMPrism_testdrive ::
  "('a::{linorder,zero,one,plus,minus,times,inverse,abs}) lib \<Rightarrow> 'a mesh \<Rightarrow> 'a dm \<Rightarrow> int \<times> 'a props \<Rightarrow> err + ('a dm \<times> 'a)" where
  "DMPrism_testdrive lib m d el =
     (case el of (i, ps) \<Rightarrow>
        if \<not> in_props (prop_type d) ps then
          (case misfit lib d (predicted d) of Inl e \<Rightarrow> Inl e | Inr v \<Rightarrow> Inr (d, v))
        else
          (case (case effect d i of
                   None \<Rightarrow> effect_of_prism lib m d i ps
                 | Some e \<Rightarrow> Inr e) of
             Inl e \<Rightarrow> Inl e
           | Inr e \<Rightarrow>
               (case broadcast (+) (predicted d) e of
                  Inl e' \<Rightarrow> Inl e'
                | Inr tmp \<Rightarrow>
                    (case misfit lib d tmp of
                       Inl e' \<Rightarrow> Inl e'
                     | Inr v \<Rightarrow> Inr (d\<lparr>effect := (effect d)(i \<mapsto> e)\<rparr>, v)))))"

text \<open>
  The second-invariant module. Its \<open>estimate\<close> is a list of cell objects of the mesh,
  kept here as their indices in the mesh store and read from the store when the kernels
  are called. The invariant is
  \<open>gxx*(gyy*gzz - gyz**2) + gxy*(gyz*gxz - gxy*gzz) + gxz*(gxy*gyz - gxz*gyy)\<close>.
\<close>

definition effect_of_cells :: "('a::{linorder,zero,one,plus,minus,times,inverse,abs}) lib \<Rightarrow> 'a dm \<Rightarrow> 'a cell option list \<Rightarrow> err + 'a list" where
  "effect_of_cells lib d cs =
     (let gxx = Inr (prism_kernel lib Gxx (xp d) (yp d) (zp d) cs None);
          gxy = Inr (prism_kernel lib Gxy (xp d) (yp d) (zp d) cs None);
          gxz = Inr (prism_kernel lib Gxz (xp d) (yp d) (zp d) cs None);
          gyy = Inr (prism_kernel lib Gyy (xp d) (yp d) (zp d) cs None);
          gyz = Inr (prism_kernel lib Gyz (xp d) (yp d) (zp d) cs None);
          gzz = Inr (prism_kernel lib Gzz (xp d) (yp d) (zp d) cs None);
          mul = lift2 (broadcast (*)); sub = lift2 (broadcast (-)); add = lift2 (broadcast (+))
      in add (add (mul gxx (sub (mul gyy gzz) (mul gyz gyz)))
                  (mul gxy (sub (mul gyz gxz) (mul gxy gzz))))
             (mul gxz (sub (mul gxy gyz) (mul gxz gyy))))"

text \<open>\<open>for p in props: cell.addprop(p, props[p])\<close> on the cell stored at index \<open>i\<close>.\<close>

fun addprops :: "'a props \<Rightarrow> 'a cell \<Rightarrow> 'a cell" where
  "addprops [] c = c"
| "addprops ((p, v) # ps) c = addprops ps (addprop p v c)"

definition write_props :: "'a mesh \<Rightarrow> int \<Rightarrow> 'a props \<Rightarrow> err + 'a mesh" where
  "write_props m i ps =
     (case mesh_get m i of
        Inl e \<Rightarrow> Inl e
      | Inr None \<Rightarrow> (if ps = [] then Inr m else Inl AttributeError)
      | Inr (Some c) \<Rightarrow> Inr (mesh_put m i (addprops ps c)))"

definition stored_cells :: "'a mesh \<Rightarrow> int list \<Rightarrow> 'a cell option list" where
  "stored_cells m is = map (\<lambda>i. cells m ! nat i) is"

definition DMPrismI2_update ::
  "('a::{linorder,zero,one,plus,minus,times,inverse,abs}) lib \<Rightarrow> 'a mesh \<Rightarrow> 'a dm \<Rightarrow> int \<times> 'a props \<Rightarrow> err + ('a mesh \<times> 'a dm)" where
  "DMPrismI2_update lib m d el =
     (case el of (i, ps) \<Rightarrow>
        (case write_props m i ps of
           Inl e \<Rightarrow> Inl e
         | Inr m' \<Rightarrow>
             (let est = dm_estimate d @ [i]
              in case effect_of_cells lib d (stored_cells m' est) of
                   Inl e \<Rightarrow> Inl e
                 | Inr pr \<Rightarrow> Inr (m', d\<lparr>dm_estimate := est, predicted := pr\<rparr>))))"

definition DMPrismI2_testdrive ::
  "('a::{linorder,zero,one,plus,minus,times,inverse,abs}) lib \<Rightarrow> 'a mesh \<Rightarrow> 'a dm \<Rightarrow> int \<times> 'a props \<Rightarrow> err + ('a mesh \<times> 'a dm \<times> 'a)" where
  "DMPrismI2_testdrive lib m d el =
     (case el of (i, ps) \<Rightarrow>
        if \<not> in_props (prop_type d) ps then
          (case misfit lib d (predicted d) of Inl e \<Rightarrow> Inl e | Inr v \<Rightarrow> Inr (m, d, v))
        else
          (case write_props m i ps of
             Inl e \<Rightarrow> Inl e
           | Inr m' \<Rightarrow>
               (case effect_of_cells lib d (stored_cells m' (dm_estimate d @ [i])) of
                  Inl e \<Rightarrow> Inl e
                | Inr tmp \<Rightarrow>
                    (case misfit lib d tmp of
                       Inl e \<Rightarrow> Inl e
                     | Inr v \<Rightarrow> Inr (m', d, v)))))"

text \<open>Method dispatch on the class of the data module.\<close>

definition update :: "('a::{linorder,zero,one,plus,minus,times,inverse,abs}) lib \<Rightarrow> 'a mesh \<Rightarrow> 'a dm \<Rightarrow> int \<times> 'a props \<Rightarrow> err + ('a mesh \<times> 'a dm)" where
  "update lib m d el =
     (if kind d = DI2 then DMPrismI2_update lib m d el
      else (case DMPrism_update lib m d el of Inl e \<Rightarrow> Inl e | Inr d' \<Rightarrow> Inr (m, d')))"

definition testdrive ::
  "('a::{linorder,zero,one,plus,minus,times,inverse,abs}) lib \<Rightarrow> 'a mesh \<Rightarrow> 'a dm \<Rightarrow> int \<times> 'a props \<Rightarrow> err + ('a mesh \<times> 'a dm \<times> 'a)" where
  "testdrive lib m d el =
     (if kind d = DI2 then DMPrismI2_testdrive lib m d el
      else (case DMPrism_testdrive lib m d el of Inl e \<Rightarrow> Inl e | Inr (d', v) \<Rightarrow> Inr (m, d', v)))"

text \<open>Sequential calls of \<open>update\<close> on one component data module, as the solver makes them.\<close>

fun DMPrism_updates :: "('a::{linorder,zero,one,plus,minus,times,inverse,abs}) lib \<Rightarrow> 'a mesh \<Rightarrow> 'a dm \<Rightarrow> (int \<times> 'a props) list \<Rightarrow> err + 'a dm" where
  "DMPrism_updates lib m d [] = Inr d"
| "DMPrism_updates lib m d (el # els) =
     (case DMPrism_update lib m d el of
        Inl e \<Rightarrow> Inl e
      | Inr d' \<Rightarrow> DMPrism_updates lib m d' els)"

subsection \<open>Seeds\<close>

record 'a seed =
  skind :: string
  sprops :: "'a props"
  delta :: 'a
  index :: int
  estimate :: "int list"
  neighbors :: "int list"
  reg :: 'a
  distance :: "int \<rightharpoonup> 'a"
  reldist :: bool
  ijk :: "int \<times> int \<times> int"
  mu :: 'a

text \<open>
  \<open>SeedPrism.__init__\<close> after \<open>_get_index\<close> has resolved the point to the cell index
  \<open>idx\<close> (the bisection over the mesh coordinates belongs to the mesh class). The weight
  is \<open>1./(sum([nx*dx, ny*dy, nz*dz])/3.)\<close>, replaced by \<open>1./(sum([nx, ny, nz])/3.)\<close> for
  relative distances. Integer division is Python 2 floor division; a zero divisor
  raises.
\<close>

definition SeedPrism_init ::
  "('a::{linorder,zero,one,plus,minus,times,inverse,abs}) lib \<Rightarrow> int \<Rightarrow> 'a props \<Rightarrow> 'a mesh \<Rightarrow> 'a \<Rightarrow> 'a \<Rightarrow> bool \<Rightarrow> err + 'a seed" where
  "SeedPrism_init lib idx ps m mu0 dlt rel =
     (case shape m of (nz, ny, nx) \<Rightarrow>
      case dims m of (dx, dy, dz) \<Rightarrow>
        (let a = py_sum [to_float lib nx * dx, to_float lib ny * dy, to_float lib nz * dz]
                   / to_float lib 3;
             r = to_float lib (nx + ny + nz) / to_float lib 3
         in if a = 0 then Inl ZeroDivisionError
            else if rel \<and> (nx * ny = 0 \<or> r = 0) then Inl ZeroDivisionError
            else
              (let k = idx div (nx * ny);
                   j = (idx - k * (nx * ny)) div nx;
                   i = idx - k * (nx * ny) - j * nx;
                   w = (if rel then 1 / r else 1 / a)
               in Inr \<lparr>skind = ''prism'', sprops = ps, delta = dlt, index = idx, estimate = [idx],
                       neighbors = [], reg = 0, distance = Map.empty, reldist = rel,
                       ijk = (if rel then (i, j, k) else (0, 0, 0)), mu = mu0 * w\<rparr>)))"

text \<open>
  \<open>_find_neighbors(n)\<close> as it is called (\<open>full=False, up=True, down=True\<close>): the six
  face neighbours in the order above, below, front, back, left, right, then the filter
  that drops the missing and the masked ones.
\<close>

fun present :: "'a mesh \<Rightarrow> int option list \<Rightarrow> err + int list" where
  "present m [] = Inr []"
| "present m (None # xs) = present m xs"
| "present m (Some i # xs) =
     (case mesh_get m i of
        Inl e \<Rightarrow> Inl e
      | Inr None \<Rightarrow> present m xs
      | Inr (Some c) \<Rightarrow> (case present m xs of Inl e \<Rightarrow> Inl e | Inr r \<Rightarrow> Inr (i # r)))"

definition face_indexes :: "'a mesh \<Rightarrow> int \<Rightarrow> int option list" where
  "face_indexes m n =
     (case shape m of (nz, ny, nx) \<Rightarrow>
        [if n - nx * ny > 0 then Some (n - nx * ny) else None,
         if n + nx * ny < msize m then Some (n + nx * ny) else None,
         if n mod nx < nx - 1 then Some (n + 1) else None,
         if n mod nx \<noteq> 0 then Some (n - 1) else None,
         if n mod (nx * ny) < nx * (ny - 1) then Some (n + nx) else None,
         if n mod (nx * ny) \<ge> nx then Some (n - nx) else None])"

definition find_neighbors :: "'a mesh \<Rightarrow> int \<Rightarrow> err + int list" where
  "find_neighbors m n =
     (case shape m of (nz, ny, nx) \<Rightarrow>
        if nx = 0 \<or> nx * ny = 0 then Inl ZeroDivisionError
        else present m (face_indexes m n))"

definition is_neighbor :: "'a seed \<Rightarrow> int \<Rightarrow> 'a seed list \<Rightarrow> bool" where
  "is_neighbor self n seeds =
     list_ex (\<lambda>s. list_ex (\<lambda>p. has_prop p (sprops s) \<and> n \<in> set (neighbors s))
                          (map fst (sprops self))) seeds"

definition not_neighbors :: "'a seed \<Rightarrow> 'a seed list \<Rightarrow> int list \<Rightarrow> int list" where
  "not_neighbors self seeds ns = filter (\<lambda>n. \<not> is_neighbor self n seeds) ns"

definition in_estimate :: "'a seed \<Rightarrow> int \<Rightarrow> 'a seed list \<Rightarrow> bool" where
  "in_estimate self n seeds =
     list_ex (\<lambda>s. list_ex (\<lambda>p. has_prop p (sprops s) \<and> n \<in> set (estimate s))
                          (map fst (sprops self))) seeds"

definition are_free :: "'a seed \<Rightarrow> 'a seed list \<Rightarrow> int list \<Rightarrow> int list" where
  "are_free self seeds ns = filter (\<lambda>n. \<not> in_estimate self n seeds) ns"

text \<open>
  The two distance functions; each stores the distance of every listed neighbour
  (\<open>math.sqrt(dx**2 + dy**2 + dz**2)\<close>, the square of a float being its product with
  itself).
\<close>

definition relative_distance :: "('a::{linorder,zero,one,plus,minus,times,inverse,abs}) lib \<Rightarrow> 'a mesh \<Rightarrow> 'a seed \<Rightarrow> int \<Rightarrow> 'a" where
  "relative_distance lib m self n =
     (case shape m of (nz, ny, nx) \<Rightarrow>
      case ijk self of (isd, jsd, ksd) \<Rightarrow>
        (let knbr = n div (nx * ny);
             jnbr = (n - knbr * (nx * ny)) div nx;
             inbr = n - knbr * (nx * ny) - jnbr * nx;
             dx = isd - inbr; dy = jsd - jnbr; dz = ksd - knbr
         in math_sqrt lib (to_float lib (dx * dx + dy * dy + dz * dz))))"

definition absolute_distance :: "('a::{linorder,zero,one,plus,minus,times,inverse,abs}) lib \<Rightarrow> 'a cell \<Rightarrow> 'a cell \<Rightarrow> 'a" where
  "absolute_distance lib scell ncell =
     (let dx = \<bar>x1 ncell - x1 scell\<bar>; dy = \<bar>y1 ncell - y1 scell\<bar>; dz = \<bar>z1 ncell - z1 scell\<bar>
      in math_sqrt lib (dx * dx + dy * dy + dz * dz))"

fun relative_distances :: "('a::{linorder,zero,one,plus,minus,times,inverse,abs}) lib \<Rightarrow> 'a mesh \<Rightarrow> 'a seed \<Rightarrow> int list \<Rightarrow> 'a seed" where
  "relative_distances lib m self [] = self"
| "relative_distances lib m self (n # ns) =
     relative_distances lib m
       (self\<lparr>distance := (distance self)(n \<mapsto> relative_distance lib m self n)\<rparr>) ns"

fun absolute_distances ::
  "('a::{linorder,zero,one,plus,minus,times,inverse,abs}) lib \<Rightarrow> 'a mesh \<Rightarrow> 'a cell option \<Rightarrow> 'a seed \<Rightarrow> int list \<Rightarrow> err + 'a seed" where
  "absolute_distances lib m scell self [] = Inr self"
| "absolute_distances lib m scell self (n # ns) =
     (case mesh_get m n of
        Inl e \<Rightarrow> Inl e
      | Inr None \<Rightarrow> Inl AttributeError
      | Inr (Some ncell) \<Rightarrow>
          (case scell of
             None \<Rightarrow> Inl AttributeError
           | Some sc \<Rightarrow>
               absolute_distances lib m scell
                 (self\<lparr>distance := (distance self)(n \<mapsto> absolute_distance lib sc ncell)\<rparr>) ns))"

definition get_distances :: "('a::{linorder,zero,one,plus,minus,times,inverse,abs}) lib \<Rightarrow> 'a mesh \<Rightarrow> 'a seed \<Rightarrow> int list \<Rightarrow> err + 'a seed" where
  "get_distances lib m self ns =
     (if reldist self then
        (case shape m of (nz, ny, nx) \<Rightarrow>
           if ns \<noteq> [] \<and> nx * ny = 0 then Inl ZeroDivisionError
           else Inr (relative_distances lib m self ns))
      else
        (case mesh_get m (index self) of
           Inl e \<Rightarrow> Inl e
         | Inr scell \<Rightarrow> absolute_distances lib m scell self ns))"

text \<open>
  The solver state: the shared mesh, the data modules, the seeds (a seed is addressed by
  its position in the list) and the two trajectories.
\<close>

record 'a hstate =
  h_mesh :: "'a mesh"
  h_dms :: "'a dm list"
  h_seeds :: "'a seed list"
  h_goals :: "'a list"
  h_misfits :: "'a list"

text \<open>\<open>seed.initialize(seeds)\<close> for the seed at position \<open>k\<close>.\<close>

definition initialize :: "('a::{linorder,zero,one,plus,minus,times,inverse,abs}) lib \<Rightarrow> 'a mesh \<Rightarrow> 'a seed list \<Rightarrow> nat \<Rightarrow> err + 'a seed list" where
  "initialize lib m seeds k =
     (let self = seeds ! k in
      case find_neighbors m (index self) of
        Inl e \<Rightarrow> Inl e
      | Inr found \<Rightarrow>
          (let self' = self\<lparr>neighbors := neighbors self
                             @ not_neighbors self seeds (are_free self seeds found)\<rparr>
           in case get_distances lib m self' (neighbors self') of
                Inl e \<Rightarrow> Inl e
              | Inr self'' \<Rightarrow> Inr (seeds[k := self''])))"

text \<open>\<open>_update_neighbors(n, seeds)\<close> for the seed at position \<open>k\<close>.\<close>

definition update_neighbors ::
  "('a::{linorder,zero,one,plus,minus,times,inverse,abs}) lib \<Rightarrow> 'a mesh \<Rightarrow> 'a seed list \<Rightarrow> nat \<Rightarrow> int \<Rightarrow> err + 'a seed list" where
  "update_neighbors lib m seeds k n =
     (let self = seeds ! k in
      case find_neighbors m n of
        Inl e \<Rightarrow> Inl e
      | Inr found \<Rightarrow>
          (let new = not_neighbors self seeds (are_free self seeds found) in
           if n \<notin> set (neighbors self) then Inl ValueError
           else if distance self n = None then Inl KeyError
           else
             (case get_distances lib m
                     (self\<lparr>neighbors := remove1 n (neighbors self) @ new,
                           distance := (distance self)(n := None)\<rparr>) new of
                Inl e \<Rightarrow> Inl e
              | Inr self' \<Rightarrow> Inr (seeds[k := self']))))"

text \<open>\<open>numpy.argmin\<close>: the first position of the least value.\<close>

fun argmin :: "('a::linorder) list \<Rightarrow> nat" where
  "argmin [] = 0"
| "argmin [x] = 0"
| "argmin (x # y # ys) = (let j = argmin (y # ys) in if x \<le> (y # ys) ! j then 0 else Suc j)"

text \<open>
  \<open>_judge\<close>: the candidates \<open>i\<close> with \<open>m < misfit and abs(m - misfit)/misfit >= delta\<close>,
  and of these the first one of least goal. The values are numpy floats, whose division
  does not raise.
\<close>

definition judge ::
  "('a::{linorder,zero,one,plus,minus,times,inverse,abs}) seed \<Rightarrow> 'a list \<Rightarrow> 'a list \<Rightarrow> 'a \<Rightarrow> 'a \<Rightarrow> (nat \<times> 'a \<times> 'a) option" where
  "judge self goals misfits goal mf =
     (let decreased = filter (\<lambda>i. misfits ! i < mf \<and> \<bar>misfits ! i - mf\<bar> / mf \<ge> delta self)
                             [0..<length misfits]
      in if decreased = [] then None
         else (let best = decreased ! argmin (map (\<lambda>i. goals ! i) decreased)
               in Some (best, goals ! best, misfits ! best)))"

text \<open>
  The what-if queries of \<open>grow\<close>: every data module is asked about every frontier
  candidate, in frontier order; the queries fill the effect caches and, for the
  second-invariant module, write to the mesh. The misfits of the modules are added from
  the left, starting from 0 (\<open>numpy.sum\<close> of a generator is Python's \<open>sum\<close>).
\<close>

fun testdrive_sum ::
  "('a::{linorder,zero,one,plus,minus,times,inverse,abs}) lib \<Rightarrow> 'a mesh \<Rightarrow> 'a dm list \<Rightarrow> int \<times> 'a props \<Rightarrow> 'a \<Rightarrow> err + ('a mesh \<times> 'a dm list \<times> 'a)" where
  "testdrive_sum lib m [] el acc = Inr (m, [], acc)"
| "testdrive_sum lib m (d # ds) el acc =
     (case testdrive lib m d el of
        Inl e \<Rightarrow> Inl e
      | Inr (m', d', v) \<Rightarrow>
          (case testdrive_sum lib m' ds el (acc + v) of
             Inl e \<Rightarrow> Inl e
           | Inr (m'', ds', s) \<Rightarrow> Inr (m'', d' # ds', s)))"

fun testdrive_all ::
  "('a::{linorder,zero,one,plus,minus,times,inverse,abs}) lib \<Rightarrow> 'a mesh \<Rightarrow> 'a dm list \<Rightarrow> 'a props \<Rightarrow> int list
    \<Rightarrow> err + ('a mesh \<times> 'a dm list \<times> 'a list)" where
  "testdrive_all lib m ds ps [] = Inr (m, ds, [])"
| "testdrive_all lib m ds ps (n # ns) =
     (case testdrive_sum lib m ds (n, ps) 0 of
        Inl e \<Rightarrow> Inl e
      | Inr (m', ds', v) \<Rightarrow>
          (case testdrive_all lib m' ds' ps ns of
             Inl e \<Rightarrow> Inl e
           | Inr (m'', ds'', vs) \<Rightarrow> Inr (m'', ds'', v # vs)))"

text \<open>The goals \<open>m + regularizer + self.mu*self.distance[n]\<close> of the candidates.\<close>

fun candidate_goals :: "('a::{linorder,zero,one,plus,minus,times,inverse,abs}) seed \<Rightarrow> 'a \<Rightarrow> int list \<Rightarrow> 'a list \<Rightarrow> err + 'a list" where
  "candidate_goals self r (n # ns) (v # vs) =
     (case distance self n of
        None \<Rightarrow> Inl KeyError
      | Some dn \<Rightarrow>
          (case candidate_goals self r ns vs of
             Inl e \<Rightarrow> Inl e
           | Inr gs \<Rightarrow> Inr ((v + r + mu self * dn) # gs)))"
| "candidate_goals self r _ _ = Inr []"

type_synonym 'a change = "(int \<times> 'a props) \<times> 'a \<times> 'a"

text \<open>\<open>seed.grow(dms, seeds, goal, misfit)\<close> for the seed at position \<open>k\<close>.\<close>

definition grow ::
  "('a::{linorder,zero,one,plus,minus,times,inverse,abs}) lib \<Rightarrow> 'a hstate \<Rightarrow> nat \<Rightarrow> 'a \<Rightarrow> 'a \<Rightarrow> err + ('a hstate \<times> 'a change option)" where
  "grow lib st k goal mf =
     (let self = h_seeds st ! k in
      case testdrive_all lib (h_mesh st) (h_dms st) (sprops self) (neighbors self) of
        Inl e \<Rightarrow> Inl e
      | Inr (m', ds', misfits) \<Rightarrow>
          (let st' = st\<lparr>h_mesh := m', h_dms := ds'\<rparr>;
               regularizer = py_sum (map reg (h_seeds st))
           in case candidate_goals self regularizer (neighbors self) misfits of
                Inl e \<Rightarrow> Inl e
              | Inr goals \<Rightarrow>
                  (case judge self goals misfits goal mf of
                     None \<Rightarrow> Inr (st', None)
                   | Some (i, g, v) \<Rightarrow>
                       (let idx = neighbors self ! i in
                        case distance self idx of
                          None \<Rightarrow> Inl KeyError
                        | Some dn \<Rightarrow>
                            (let self' = self\<lparr>estimate := estimate self @ [idx],
                                              reg := reg self + mu self * dn\<rparr>
                             in case update_neighbors lib m' ((h_seeds st)[k := self']) k idx of
                                  Inl e \<Rightarrow> Inl e
                                | Inr seeds' \<Rightarrow>
                                    Inr (st'\<lparr>h_seeds := seeds'\<rparr>,
                                         Some ((idx, sprops self), g, v)))))))"

subsection \<open>The growth solver\<close>

fun update_all ::
  "('a::{linorder,zero,one,plus,minus,times,inverse,abs}) lib \<Rightarrow> 'a mesh \<Rightarrow> 'a dm list \<Rightarrow> int \<times> 'a props \<Rightarrow> err + ('a mesh \<times> 'a dm list)" where
  "update_all lib m [] el = Inr (m, [])"
| "update_all lib m (d # ds) el =
     (case update lib m d el of
        Inl e \<Rightarrow> Inl e
      | Inr (m', d') \<Rightarrow>
          (case update_all lib m' ds el of
             Inl e \<Rightarrow> Inl e
           | Inr (m'', ds') \<Rightarrow> Inr (m'', d' # ds')))"

text \<open>
  One round of \<open>_harvest_solver\<close>: every seed, in list order, tries to grow against the
  latest goal and misfit; an accepted accretion is appended to the trajectories and
  absorbed by every data module.
\<close>

fun seed_pass :: "('a::{linorder,zero,one,plus,minus,times,inverse,abs}) lib \<Rightarrow> 'a hstate \<Rightarrow> bool \<Rightarrow> nat list \<Rightarrow> err + ('a hstate \<times> bool)" where
  "seed_pass lib st grew [] = Inr (st, grew)"
| "seed_pass lib st grew (k # ks) =
     (case grow lib st k (last (h_goals st)) (last (h_misfits st)) of
        Inl e \<Rightarrow> Inl e
      | Inr (st', None) \<Rightarrow> seed_pass lib st' grew ks
      | Inr (st', Some (params, g, v)) \<Rightarrow>
          (case update_all lib (h_mesh st') (h_dms st') params of
             Inl e \<Rightarrow> Inl e
           | Inr (m'', ds'') \<Rightarrow>
               seed_pass lib
                 (st'\<lparr>h_mesh := m'', h_dms := ds'',
                      h_goals := h_goals st' @ [g], h_misfits := h_misfits st' @ [v]\<rparr>)
                 True ks))"

text \<open>
  The \<open>while True\<close> loop of \<open>_harvest_solver\<close>. A run that never leaves the loop has the
  value \<open>None\<close>.
\<close>

partial_function (option) harvest_solver :: "('a::{linorder,zero,one,plus,minus,times,inverse,abs}) lib \<Rightarrow> 'a hstate \<Rightarrow> (err + 'a hstate) option" where
  "harvest_solver lib st =
     (case seed_pass lib st False [0..<length (h_seeds st)] of
        Inl e \<Rightarrow> Some (Inl e)
      | Inr (st', grew) \<Rightarrow> if grew then harvest_solver lib st' else Some (Inr st'))"

text \<open>
  \<open>_cat_estimate\<close>: for every property the (index, value) pairs of all seeds that carry
  it, in seed order. (The final conversion to a sparse list belongs to the absent
  utilities.)
\<close>

fun cat_add :: "(string \<times> (int \<times> 'a) list) list \<Rightarrow> string \<Rightarrow> (int \<times> 'a) list
    \<Rightarrow> (string \<times> (int \<times> 'a) list) list" where
  "cat_add [] p vs = [(p, vs)]"
| "cat_add ((q, ws) # r) p vs = (if q = p then (q, ws @ vs) # r else (q, ws) # cat_add r p vs)"

definition cat_seed :: "'a seed \<Rightarrow> (string \<times> (int \<times> 'a) list) list
    \<Rightarrow> (string \<times> (int \<times> 'a) list) list" where
  "cat_seed s acc = fold (\<lambda>(p, v) a. cat_add a p (map (\<lambda>i. (i, v)) (estimate s))) (sprops s) acc"

definition cat_estimate :: "'a seed list \<Rightarrow> (string \<times> (int \<times> 'a) list) list" where
  "cat_estimate seeds = fold cat_seed seeds []"

text \<open>The preparation steps of \<open>harvest\<close>.\<close>

fun initialize_all :: "('a::{linorder,zero,one,plus,minus,times,inverse,abs}) lib \<Rightarrow> 'a mesh \<Rightarrow> 'a seed list \<Rightarrow> nat list \<Rightarrow> err + 'a seed list" where
  "initialize_all lib m seeds [] = Inr seeds"
| "initialize_all lib m seeds (k # ks) =
     (case initialize lib m seeds k of
        Inl e \<Rightarrow> Inl e
      | Inr seeds' \<Rightarrow> initialize_all lib m seeds' ks)"

fun update_seeds :: "('a::{linorder,zero,one,plus,minus,times,inverse,abs}) lib \<Rightarrow> 'a mesh \<Rightarrow> 'a dm \<Rightarrow> 'a seed list \<Rightarrow> err + ('a mesh \<times> 'a dm)" where
  "update_seeds lib m d [] = Inr (m, d)"
| "update_seeds lib m d (s # ss) =
     (case update lib m d (index s, sprops s) of
        Inl e \<Rightarrow> Inl e
      | Inr (m', d') \<Rightarrow> update_seeds lib m' d' ss)"

fun init_dms ::
  "('a::{linorder,zero,one,plus,minus,times,inverse,abs}) lib \<Rightarrow> 'a \<Rightarrow> 'a mesh \<Rightarrow> 'a dm list \<Rightarrow> 'a seed list \<Rightarrow> err + ('a mesh \<times> 'a dm list)" where
  "init_dms lib n m [] seeds = Inr (m, [])"
| "init_dms lib n m (d # ds) seeds =
     (case update_seeds lib m (d\<lparr>weight := weight d / n\<rparr>) seeds of
        Inl e \<Rightarrow> Inl e
      | Inr (m', d') \<Rightarrow>
          (case init_dms lib n m' ds seeds of
             Inl e \<Rightarrow> Inl e
           | Inr (m'', ds') \<Rightarrow> Inr (m'', d' # ds')))"

text \<open>\<open>sum(dm.misfit(dm.predicted) for dm in dms)\<close>, added from the left.\<close>

fun sum_misfits :: "('a::{linorder,zero,one,plus,minus,times,inverse,abs}) lib \<Rightarrow> 'a dm list \<Rightarrow> 'a \<Rightarrow> err + 'a" where
  "sum_misfits lib [] acc = Inr acc"
| "sum_misfits lib (d # ds) acc =
     (case misfit lib d (predicted d) of
        Inl e \<Rightarrow> Inl e
      | Inr v \<Rightarrow> sum_misfits lib ds (acc + v))"

text \<open>
  The state with which \<open>harvest\<close> enters \<open>_harvest_solver\<close>: the kinds are checked, every
  seed is initialised, every data module is rescaled (\<open>dm.weight /= float(len(dms))\<close>)
  and absorbs every seed, and the first goal is the sum of the misfits.
\<close>

definition harvest_prepare ::
  "('a::{linorder,zero,one,plus,minus,times,inverse,abs}) lib \<Rightarrow> 'a mesh \<Rightarrow> 'a dm list \<Rightarrow> 'a seed list \<Rightarrow> err + 'a hstate" where
  "harvest_prepare lib m dms seeds =
     (case seeds of
        [] \<Rightarrow> Inl IndexError
      | s0 # _ \<Rightarrow>
          if length (filter (\<lambda>s. skind s = skind s0) seeds) \<noteq> length seeds then Inl ValueError
          else
            (case initialize_all lib m seeds [0..<length seeds] of
               Inl e \<Rightarrow> Inl e
             | Inr seeds' \<Rightarrow>
                 (case init_dms lib (to_float lib (int (length dms))) m dms seeds' of
                    Inl e \<Rightarrow> Inl e
                  | Inr (m', dms') \<Rightarrow>
                      (case sum_misfits lib dms' 0 of
                         Inl e \<Rightarrow> Inl e
                       | Inr goal \<Rightarrow>
                           Inr \<lparr>h_mesh = m', h_dms = dms', h_seeds = seeds',
                                h_goals = [goal], h_misfits = [goal]\<rparr>))))"

text \<open>
  \<open>harvest(dms, seeds, iterate)\<close>. The result is the concatenated estimate together with
  the final state, whose trajectories are the returned goals and misfits.
\<close>

definition harvest :: "('a::{linorder,zero,one,plus,minus,times,inverse,abs}) lib \<Rightarrow> 'a mesh \<Rightarrow> 'a dm list \<Rightarrow> 'a seed list \<Rightarrow> bool
    \<Rightarrow> (err + ((string \<times> (int \<times> 'a) list) list \<times> 'a hstate)) option" where
  "harvest lib m dms seeds iterate =
     (if iterate then Some (Inl NotImplementedError)
      else
        (case harvest_prepare lib m dms seeds of
           Inl e \<Rightarrow> Some (Inl e)
         | Inr st \<Rightarrow>
             (case harvest_solver lib st of
                None \<Rightarrow> None
              | Some (Inr st') \<Rightarrow> Some (Inr (cat_estimate (h_seeds st'), st'))
              | Some (Inl e) \<Rightarrow> Some (Inl e))))"

subsection \<open>Concrete inputs used by the closed theorems\<close>

definition ex_cell :: "real \<Rightarrow> real cell" where
  "ex_cell z = \<lparr>x1 = 0, x2 = 1, y1 = 0, y2 = 1, z1 = z, z2 = z + 1, cprops = Map.empty\<rparr>"

text \<open>A column of two cells: shape (nz, ny, nx) = (2, 1, 1); cell 0 lies above cell 1.\<close>

definition ex_column :: "real mesh" where
  "ex_column = \<lparr>shape = (2, 1, 1), dims = (1, 1, 1), cells = [Some (ex_cell 0), Some (ex_cell 1)]\<rparr>"

text \<open>
  The numeric functions over the reals: a kernel with one observation point whose value
  is the density override, the exact norms of order 1 and 2, the exact square root and
  the embedding of the integers.
\<close>

definition ex_pot :: "real kernel" where
  "ex_pot c xs ys zs cs dens = [case dens of None \<Rightarrow> real (length cs) | Some v \<Rightarrow> v]"

definition ex_norm :: "real list \<Rightarrow> int \<Rightarrow> real" where
  "ex_norm v ord = (if ord = 1 then py_sum (map abs v) else sqrt (py_sum (map (\<lambda>x. x * x) v)))"

definition ex_lib :: "real lib" where
  "ex_lib = \<lparr>prism_kernel = ex_pot, linalg_norm = ex_norm, math_sqrt = sqrt,
              to_float = real_of_int\<rparr>"

definition ex_i2 :: "real dm" where
  "ex_i2 = \<lparr>kind = DI2, data = [3], predicted = [0], xp = [0], yp = [0], zp = [0], norm = 1,
            weight = 1 / 3, effect = Map.empty, prop_type = Some ''density'', dm_estimate = []\<rparr>"

text \<open>A gz module with one observation.\<close>

definition ex_gz :: "real dm" where
  "ex_gz = \<lparr>kind = DLin Gz, data = [3], predicted = [0], xp = [0], yp = [0], zp = [0], norm = 1,
            weight = 1 / 3, effect = Map.empty, prop_type = Some ''density'', dm_estimate = []\<rparr>"

text \<open>A row of three cells: shape (nz, ny, nx) = (1, 1, 3); cells 0, 1, 2 along x.\<close>

definition ex_row :: "real mesh" where
  "ex_row = \<lparr>shape = (1, 1, 3), dims = (1, 1, 1),
     cells = [Some ((ex_cell 0)\<lparr>x1 := 0, x2 := 1\<rparr>), Some ((ex_cell 0)\<lparr>x1 := 1, x2 := 2\<rparr>),
              Some ((ex_cell 0)\<lparr>x1 := 2, x2 := 3\<rparr>)]\<rparr>"

text \<open>A fresh seed on cell \<open>i\<close> of the row with the single property \<open>p\<close> of value 1.\<close>

definition ex_seed :: "int \<Rightarrow> string \<Rightarrow> real seed" where
  "ex_seed i p =
     \<lparr>skind = ''prism'', sprops = [(p, 1)], delta = 1 / 10000, index = i, estimate = [i],
      neighbors = [], reg = 0, distance = Map.empty, reldist = False, ijk = (0, 0, 0), mu = 0\<rparr>"

text \<open>A fresh density seed on cell 1 of the column.\<close>

definition ex_column_seed :: "real seed" where
  "ex_column_seed =
     \<lparr>skind = ''prism'', sprops = [(''density'', 1)], delta = 1 / 10000, index = 1,
      estimate = [1], neighbors = [], reg = 0, distance = Map.empty, reldist = False,
      ijk = (0, 0, 0), mu = 0\<rparr>"

text \<open>The state in which the solver starts for two density seeds at the ends of the row.\<close>

definition ex_state :: "real hstate" where
  "ex_state =
     \<lparr>h_mesh = ex_row,
      h_dms = [ex_gz\<lparr>predicted := [2]\<rparr>],
      h_seeds = [(ex_seed 0 ''density'')\<lparr>neighbors := [1], distance := [1 \<mapsto> 1]\<rparr>,
                 ex_seed 2 ''density''],
      h_goals = [1 / 3], h_misfits = [1 / 3]\<rparr>"

text \<open>
  A kernel with one observation point whose value is the density override times the
  upper x bound of the cell, and the numeric functions over the reals with this kernel.
\<close>

definition ex_pot_x :: "real kernel" where
  "ex_pot_x c xs ys zs cs dens =
     [case dens of
        None \<Rightarrow> 0
      | Some v \<Rightarrow> (case cs of [Some cl] \<Rightarrow> v * x2 cl | _ \<Rightarrow> 0)]"

definition ex_lib_x :: "real lib" where
  "ex_lib_x = ex_lib\<lparr>prism_kernel := ex_pot_x\<rparr>"

text \<open>
  A state of the solver on the row: one density seed on cell 1 whose frontier holds the
  cells 2 and 0, at the stored distances 4 and 1; the module has the datum 8 and predicts
  4, so that the current misfit is 1/2.
\<close>

definition ex_front :: "real hstate" where
  "ex_front =
     \<lparr>h_mesh = ex_row,
      h_dms = [ex_gz\<lparr>data := [8], weight := 1 / 8, predicted := [4]\<rparr>],
      h_seeds = [(ex_seed 1 ''density'')\<lparr>delta := 1 / 8, mu := 1 / 8, reg := 1 / 4,
                   neighbors := [2, 0], distance := [2 \<mapsto> 4, 0 \<mapsto> 1]\<rparr>],
      h_goals = [3 / 4], h_misfits = [1 / 2]\<rparr>"

subsection \<open>States of a run\<close>

text \<open>
  The states the solver passes through: from a starting state, any number of executions
  of the body of the seed loop (one seed tries to grow, and an accepted accretion is
  absorbed by the data modules). Every state of a run of \<open>harvest_solver\<close> is of this
  form.
\<close>

inductive solver_reaches :: "('a::{linorder,zero,one,plus,minus,times,inverse,abs}) lib \<Rightarrow> 'a hstate \<Rightarrow> 'a hstate \<Rightarrow> bool"
  for lib :: "'a lib" and st0 :: "'a hstate" where
  start: "solver_reaches lib st0 st0"
| attempt: "solver_reaches lib st0 st \<Longrightarrow> k < length (h_seeds st) \<Longrightarrow>
     seed_pass lib st grew [k] = Inr (st', grew') \<Longrightarrow> solver_reaches lib st0 st'"

text \<open>
  Two seeds share a physical property; and the exclusion the seeds keep among those that
  do: estimates, frontiers, and frontier against estimate are pairwise disjoint.
\<close>

definition share :: "'a seed \<Rightarrow> 'a seed \<Rightarrow> bool" where
  "share s t = (\<exists>p. has_prop p (sprops s) \<and> has_prop p (sprops t))"

definition excl :: "'a seed list \<Rightarrow> bool" where
  "excl ss = (\<forall>i<length ss. \<forall>j<length ss. i \<noteq> j \<and> share (ss ! i) (ss ! j) \<longrightarrow>
      set (estimate (ss ! i)) \<inter> set (estimate (ss ! j)) = {} \<and>
      set (neighbors (ss ! i)) \<inter> set (estimate (ss ! j)) = {} \<and>
      set (neighbors (ss ! i)) \<inter> set (neighbors (ss ! j)) = {})"

subsection \<open>Invariants of a run\<close>

text \<open>
  The mesh keeps its shape and its number of cells; a seed keeps an estimate and a
  frontier without repetitions, disjoint from each other and inside the mesh (the seed's
  own cell apart); the number of recorded goals follows the sizes of the estimates.
\<close>

definition mframe :: "'a mesh \<Rightarrow> 'a mesh \<Rightarrow> bool" where
  "mframe m m' = (shape m' = shape m \<and> length (cells m') = length (cells m))"

definition own_ok :: "nat \<Rightarrow> 'a seed \<Rightarrow> bool" where
  "own_ok N s = (sprops s \<noteq> [] \<and> distinct (estimate s) \<and> distinct (neighbors s) \<and>
     set (neighbors s) \<inter> set (estimate s) = {} \<and>
     (\<forall>n\<in>set (neighbors s). 0 \<le> n \<and> n < int N) \<and>
     (\<forall>n\<in>set (estimate s). n = index s \<or> (0 \<le> n \<and> n < int N)))"

definition est_total :: "'a seed list \<Rightarrow> nat" where
  "est_total ss = (\<Sum>s\<leftarrow>ss. length (estimate s))"

definition solver_inv :: "nat \<Rightarrow> 'a hstate \<Rightarrow> bool" where
  "solver_inv N st =
     ((case shape (h_mesh st) of (nz, ny, nx) \<Rightarrow> 0 < nx \<and> 0 < ny) \<and>
      length (cells (h_mesh st)) = N \<and>
      (\<forall>s\<in>set (h_seeds st). own_ok N s) \<and>
      length (h_goals st) + length (h_seeds st) = Suc (est_total (h_seeds st)))"

section \<open>The seeded growth of the matrix formulation (fatiando.inversion.pgrav3d)\<close>

text \<open>
  A seed of \<open>pgrav3d\<close> is a dictionary with the index \<open>param\<close> of its cell, its density
  and its list of neighbours (\<open>get_seed\<close>, after the cell holding the point has been
  found; the cell bounds it also stores play no part here). The estimate is a numpy array
  of one density per cell: an index from \<open>-size\<close> up to \<open>-1\<close> counts from the end.
\<close>

record mseed =
  param :: int
  density :: real
  mneighbors :: "int list"

definition get_seed :: "int \<Rightarrow> real \<Rightarrow> mseed" where
  "get_seed i d = \<lparr>param = i, density = d, mneighbors = []\<rparr>"

definition array_get :: "real list \<Rightarrow> int \<Rightarrow> err + real" where
  "array_get a i =
     (let n = int (length a) in
      if 0 \<le> i \<and> i < n then Inr (a ! nat i)
      else if - n \<le> i \<and> i < 0 then Inr (a ! nat (n + i))
      else Inl IndexError)"

definition array_set :: "real list \<Rightarrow> int \<Rightarrow> real \<Rightarrow> err + real list" where
  "array_set a i v =
     (let n = int (length a) in
      if 0 \<le> i \<and> i < n then Inr (a[nat i := v])
      else if - n \<le> i \<and> i < 0 then Inr (a[nat (n + i) := v])
      else Inl IndexError)"

text \<open>
  \<open>_add_neighbors(param, neighbors, seeds, mesh, estimate)\<close> goes through the 26 cells
  around \<open>param\<close> in a fixed order. A cell is considered when the guards on the six face
  directions hold (\<open>neighbor_candidates\<close>); it is appended when it is in no neighbour list
  of the seeds passed and its estimate is zero. \<open>own\<close> says that the list being extended
  is the list of one of the seeds passed, \<open>others\<close> are the lists of the remaining ones.
\<close>

definition both :: "int option \<Rightarrow> int option \<Rightarrow> int \<Rightarrow> int option" where
  "both a b v = (if a \<noteq> None \<and> b \<noteq> None then Some v else None)"

definition all3 :: "int option \<Rightarrow> int option \<Rightarrow> int option \<Rightarrow> int \<Rightarrow> int option" where
  "all3 a b c v = (if a \<noteq> None \<and> b \<noteq> None \<and> c \<noteq> None then Some v else None)"

definition neighbor_candidates :: "int \<times> int \<times> int \<Rightarrow> int \<Rightarrow> int list" where
  "neighbor_candidates shp p =
     (case shp of (nz, ny, nx) \<Rightarrow>
        (let above = (if p - nx * ny > 0 then Some (p - nx * ny) else None);
             bellow = (if p + nx * ny < nz * ny * nx then Some (p + nx * ny) else None);
             front = (if p mod nx < nx - 1 then Some (p + 1) else None);
             bck = (if p mod nx \<noteq> 0 then Some (p - 1) else None);
             left = (if p mod (nx * ny) < nx * (ny - 1) then Some (p + nx) else None);
             right = (if p mod (nx * ny) \<ge> nx then Some (p - nx) else None)
         in List.map_filter id
             [above, bellow, front, bck, left, right,
              both front left (p + nx + 1), both front right (p - nx + 1),
              both bck left (p + nx - 1), both bck right (p - nx - 1),
              both above left (p - nx * ny + nx), both above right (p - nx * ny - nx),
              both above front (p - nx * ny + 1), both above bck (p - nx * ny - 1),
              all3 above front left (p - nx * ny + nx + 1),
              all3 above front right (p - nx * ny - nx + 1),
              all3 above bck left (p - nx * ny + nx - 1),
              all3 above bck right (p - nx * ny - nx - 1),
              both bellow left (p + nx * ny + nx), both bellow right (p + nx * ny - nx),
              both bellow front (p + nx * ny + 1), both bellow bck (p + nx * ny - 1),
              all3 bellow front left (p + nx * ny + nx + 1),
              all3 bellow front right (p + nx * ny - nx + 1),
              all3 bellow bck left (p + nx * ny + nx - 1),
              all3 bellow bck right (p + nx * ny - nx - 1)]))"

fun add_checked ::
  "real list \<Rightarrow> bool \<Rightarrow> int list list \<Rightarrow> int list \<Rightarrow> int list \<Rightarrow> err + int list" where
  "add_checked rho own others nbrs [] = Inr nbrs"
| "add_checked rho own others nbrs (n # ns) =
     (if list_all (\<lambda>l. n \<notin> set l) others \<and> (if own then n \<notin> set nbrs else True) then
        (case array_get rho n of
           Inl e \<Rightarrow> Inl e
         | Inr v \<Rightarrow> add_checked rho own others (if v = 0 then nbrs @ [n] else nbrs) ns)
      else add_checked rho own others nbrs ns)"

definition add_neighbors ::
  "int \<Rightarrow> int list \<Rightarrow> bool \<Rightarrow> int list list \<Rightarrow> int \<times> int \<times> int \<Rightarrow> real list
    \<Rightarrow> err + int list" where
  "add_neighbors p nbrs own others shp rho =
     (case shp of (nz, ny, nx) \<Rightarrow>
        if nx = 0 \<or> nx * ny = 0 then Inl ZeroDivisionError
        else add_checked rho own others nbrs (neighbor_candidates shp p))"

text \<open>
  The conflict resolution of \<open>grow\<close> for one seed: \<open>for neighbor in seed['neighbors']\<close>
  walks the list by position while the body removes from the same list. The first other
  seed, in list order, that has the neighbour decides: with equal densities the
  neighbour is removed from this seed, with different densities the failure is raised.
\<close>

function resolve_pass :: "real \<Rightarrow> (real \<times> int list) list \<Rightarrow> nat \<Rightarrow> int list \<Rightarrow> err + int list" where
  "resolve_pass d others pos nbrs =
     (if pos < length nbrs then
        (case find (\<lambda>t. nbrs ! pos \<in> set (snd t)) others of
           None \<Rightarrow> resolve_pass d others (Suc pos) nbrs
         | Some t \<Rightarrow>
             if d = fst t then resolve_pass d others (Suc pos) (remove1 (nbrs ! pos) nbrs)
             else Inl AttributeError)
      else Inr nbrs)"
  by pat_completeness auto
termination
  by (relation "measure (\<lambda>(d, others, pos, nbrs). length nbrs - pos)")
     (auto simp: length_remove1)

fun resolve_all :: "mseed list \<Rightarrow> nat list \<Rightarrow> err + mseed list" where
  "resolve_all seeds [] = Inr seeds"
| "resolve_all seeds (i # is) =
     (case resolve_pass (density (seeds ! i))
             (map (\<lambda>j. (density (seeds ! j), mneighbors (seeds ! j)))
                  (filter (\<lambda>j. j \<noteq> i) [0..<length seeds]))
             0 (mneighbors (seeds ! i)) of
        Inl e \<Rightarrow> Inl e
      | Inr l \<Rightarrow> resolve_all (seeds[i := (seeds ! i)\<lparr>mneighbors := l\<rparr>]) is)"

fun set_densities :: "real list \<Rightarrow> mseed list \<Rightarrow> err + real list" where
  "set_densities rho [] = Inr rho"
| "set_densities rho (s # ss) =
     (case array_set rho (param s) (density s) of
        Inl e \<Rightarrow> Inl e
      | Inr rho' \<Rightarrow> set_densities rho' ss)"

text \<open>
  Each seed gets its first neighbours with only itself passed as \<open>seeds\<close>, so that common
  neighbours are allowed at this point.
\<close>

fun first_neighbors :: "int \<times> int \<times> int \<Rightarrow> real list \<Rightarrow> mseed list \<Rightarrow> err + mseed list" where
  "first_neighbors shp rho [] = Inr []"
| "first_neighbors shp rho (s # ss) =
     (case add_neighbors (param s) (mneighbors s) True [] shp rho of
        Inl e \<Rightarrow> Inl e
      | Inr l \<Rightarrow>
          (case first_neighbors shp rho ss of
             Inl e \<Rightarrow> Inl e
           | Inr ss' \<Rightarrow> Inr (s\<lparr>mneighbors := l\<rparr> # ss')))"

text \<open>
  The start of \<open>grow(data, mesh, seeds, mmi, ...)\<close>, up to the point where the Jacobian is
  built: the seeds' densities are written into the estimate, the first neighbours are
  collected and the conflicts resolved. It holds the only \<open>raise\<close> of the function; the
  rounds that follow extend a seed's neighbours with \<open>_add_neighbors\<close> against all seeds.
\<close>

definition pgrav3d_grow_init :: "int \<times> int \<times> int \<Rightarrow> mseed list \<Rightarrow> err + (mseed list \<times> real list)" where
  "pgrav3d_grow_init shp seeds =
     (case shp of (nz, ny, nx) \<Rightarrow>
        (case set_densities (replicate (nat (nz * ny * nx)) 0) seeds of
           Inl e \<Rightarrow> Inl e
         | Inr rho \<Rightarrow>
             (case first_neighbors shp rho seeds of
                Inl e \<Rightarrow> Inl e
              | Inr seeds' \<Rightarrow>
                  (case resolve_all seeds' [0..<length seeds'] of
                     Inl e \<Rightarrow> Inl e
                   | Inr seeds'' \<Rightarrow> Inr (seeds'', rho)))))"

section \<open>Data modules: construction and updates\<close>

text \<open>
  C9. With \<open>iterate\<close> set, \<open>harvest\<close> raises the not-implemented error whatever the data
  modules and seeds are: the test is the first statement after the logging, so no seed
  is initialised and no data module updated, and no result is returned.
\<close>

theorem harvest_iterate_not_implemented:
  "harvest lib m dms seeds True = Some (Inl NotImplementedError)"
  by (simp add: harvest_def)

text \<open>
  C2. Construction is claimed to fail whenever the four observation arrays do not all
  have the same length. The chained comparison of \<open>DMPrism.__init__\<close> only fails when
  every adjacent pair of lengths differs: with \<open>xp\<close> and \<open>yp\<close> of length 1 and \<open>zp\<close> and
  \<open>data\<close> of length 2 the module is built.
\<close>

theorem init_accepts_unequal_lengths:
  "length [0::real] \<noteq> length [0::real, 1] \<and>
   DMPrism_sub_init ex_lib (DLin Gz) [1, 2] [0] [0] [0, 1] 1 =
     Inr \<lparr>kind = DLin Gz, data = [1, 2], predicted = [0, 0], xp = [0], yp = [0], zp = [0, 1],
          norm = 1, weight = 1 / 3, effect = Map.empty, prop_type = Some ''density'',
          dm_estimate = []\<rparr>"
  by (simp add: DMPrism_sub_init_def DMPrism_init_def ex_lib_def ex_norm_def py_sum_def)

text \<open>
  C6. \<open>update\<close> is claimed to leave a data module unchanged when its tracked property is
  not a key of the element's properties. \<open>DMPrismI2.update\<close> has no such test: called
  with a property dictionary without \<open>density\<close> it still appends the cell to the module's
  estimate list (and recomputes the predicted vector from it).
\<close>

theorem i2_update_without_property_changes_estimate:
  "\<not> in_props (prop_type ex_i2) [(''magnetization'', 1)] \<and> dm_estimate ex_i2 = [] \<and>
   map_sum id (dm_estimate \<circ> snd) (update ex_lib ex_column ex_i2 (0, [(''magnetization'', 1)]))
     = Inr [0]"
  by (simp add: update_def ex_i2_def DMPrismI2_update_def write_props_def mesh_get_def
      ex_column_def has_prop_def in_props_def mesh_put_def Let_def effect_of_cells_def lift2_def
      broadcast_def ex_lib_def ex_pot_def stored_cells_def)

section \<open>Seeds and the growth step\<close>

text \<open>
  C4. After \<open>initialize\<close> the frontier is claimed to hold every free face neighbour of the
  seed, also the one directly above when that neighbour is cell 0. \<open>_find_neighbors\<close>
  admits the cell above only when its index is greater than 0: the seed at index
  \<open>nx*ny = 1\<close> of the two-cell column, alone in the mesh, gets an empty frontier although
  cell 0 is present, shares a face with it and belongs to no seed.
\<close>

theorem initialize_misses_cell_zero:
  "SeedPrism_init ex_lib 1 [(''density'', 1)] ex_column 0 (1 / 10000) False = Inr ex_column_seed \<and>
   mesh_get ex_column 0 = Inr (Some (ex_cell 0)) \<and>
   map_sum id (map neighbors) (initialize ex_lib ex_column [ex_column_seed] 0) = Inr [[]]"
  by (simp add: initialize_def SeedPrism_init_def ex_column_seed_def ex_column_def
      find_neighbors_def face_indexes_def msize_def not_neighbors_def are_free_def mesh_get_def
      get_distances_def Let_def ex_lib_def py_sum_def)

section \<open>Additivity of the component data modules\<close>

lemma effect_of_prism_frame:
  "effect_of_prism lib m (d\<lparr>predicted := pr, effect := ef\<rparr>) i ps = effect_of_prism lib m d i ps"
  by (simp add: effect_of_prism_def split: dmkind.splits sum.splits option.splits)

text \<open>
  C7, as stated, fails on a module whose cache holds an effect for the cell that was
  computed for other property values: \<open>testdrive\<close> of cell 0 with density 1 caches the
  effect [1]; a following \<open>update\<close> of cell 0 with density 2 adds the cached [1], not the
  effect [2] computed for the element.
\<close>

theorem update_uses_stale_cache:
  "DMPrism_testdrive ex_lib ex_column ex_gz (0, [(''density'', 1)])
     = Inr (ex_gz\<lparr>effect := [0 \<mapsto> [1]]\<rparr>, 2 / 3)
   \<and> effect_of_prism ex_lib ex_column (ex_gz\<lparr>effect := [0 \<mapsto> [1]]\<rparr>) 0 [(''density'', 2)] = Inr [2]
   \<and> map_sum id predicted
       (DMPrism_updates ex_lib ex_column (ex_gz\<lparr>effect := [0 \<mapsto> [1]]\<rparr>) [(0, [(''density'', 2)])])
     = Inr [1]
   \<and> array_iadd (predicted (ex_gz\<lparr>effect := [0 \<mapsto> [1]]\<rparr>)) [2] = Inr [2]"
  by (simp add: DMPrism_testdrive_def DMPrism_update_def effect_of_prism_def ex_gz_def ex_pot_def
      ex_column_def mesh_get_def in_props_def has_prop_def misfit_def ex_lib_def ex_norm_def
      py_sum_def broadcast_def array_iadd_def)

text \<open>
  C7, amended. For a component data module and a sequence of elements that all carry the
  tracked property, each with an effect that has one value per predicted datum and for
  which the cache holds no entry or this very effect: updating with the elements one
  after the other adds their effects to the predicted vector, elementwise and in the
  order of the calls. (The additions are those of the floating-point arithmetic: another
  order of the calls adds the same effects in that other order.)
\<close>

theorem update_adds_effects_in_call_order:
  assumes "list_all2 (\<lambda>el e. in_props (prop_type d) (snd el)
              \<and> effect_of_prism lib m d (fst el) (snd el) = Inr e
              \<and> length e = length (predicted d)
              \<and> (effect d (fst el) = None \<or> effect d (fst el) = Some e)) els es"
  shows "\<exists>d'. DMPrism_updates lib m d els = Inr d' \<and>
              predicted d' = foldl (map2 (+)) (predicted d) es"
  using assms
proof (induction els arbitrary: d es)
  case Nil
  then show ?case by simp
next
  case (Cons el els)
  from Cons.prems obtain e es' where es: "es = e # es'"
    and h: "in_props (prop_type d) (snd el)" "effect_of_prism lib m d (fst el) (snd el) = Inr e"
      "length e = length (predicted d)" "effect d (fst el) = None \<or> effect d (fst el) = Some e"
    and rest: "list_all2 (\<lambda>el e. in_props (prop_type d) (snd el)
              \<and> effect_of_prism lib m d (fst el) (snd el) = Inr e
              \<and> length e = length (predicted d)
              \<and> (effect d (fst el) = None \<or> effect d (fst el) = Some e)) els es'"
    by (auto simp: list_all2_Cons1)
  define d1 where "d1 = d\<lparr>predicted := map2 (+) (predicted d) e, effect := (effect d)(fst el := None)\<rparr>"
  have step: "DMPrism_update lib m d el = Inr d1"
    using h by (cases el) (auto simp: DMPrism_update_def d1_def array_iadd_def)
  have fr: "effect_of_prism lib m d1 j qs = effect_of_prism lib m d j qs" for j qs
    by (simp add: d1_def effect_of_prism_frame)
  have len: "length (predicted d1) = length (predicted d)"
    using h(3) by (simp add: d1_def)
  have "list_all2 (\<lambda>el e. in_props (prop_type d1) (snd el)
              \<and> effect_of_prism lib m d1 (fst el) (snd el) = Inr e
              \<and> length e = length (predicted d1)
              \<and> (effect d1 (fst el) = None \<or> effect d1 (fst el) = Some e)) els es'"
    using rest unfolding fr len
    by (rule list_all2_mono) (auto simp: d1_def)
  from Cons.IH [OF this] obtain d' where
    "DMPrism_updates lib m d1 els = Inr d'" "predicted d' = foldl (map2 (+)) (predicted d1) es'"
    by blast
  with step es show ?case by (simp add: d1_def)
qed

theorem update_adds_effects_in_call_order_witness:
  "\<exists>d'. DMPrism_updates ex_lib_x ex_row (ex_gz\<lparr>effect := [2 \<mapsto> [6]]\<rparr>)
            [(2, [(''density'', 2)]), (0, [(''density'', 1)])] = Inr d'
      \<and> predicted d' = [7]"
proof -
  have "list_all2 (\<lambda>el e. in_props (prop_type (ex_gz\<lparr>effect := [2 \<mapsto> [6]]\<rparr>)) (snd el)
              \<and> effect_of_prism ex_lib_x ex_row (ex_gz\<lparr>effect := [2 \<mapsto> [6]]\<rparr>) (fst el) (snd el) = Inr e
              \<and> length e = length (predicted (ex_gz\<lparr>effect := [2 \<mapsto> [6]]\<rparr>))
              \<and> (effect (ex_gz\<lparr>effect := [2 \<mapsto> [6]]\<rparr>) (fst el) = None
                 \<or> effect (ex_gz\<lparr>effect := [2 \<mapsto> [6]]\<rparr>) (fst el) = Some e))
          [(2, [(''density'', 2)]), (0, [(''density'', 1)])] [[6], [1]]"
    by (simp add: ex_gz_def in_props_def has_prop_def effect_of_prism_def ex_row_def ex_cell_def
        mesh_get_def ex_lib_x_def ex_lib_def ex_pot_x_def)
  from update_adds_effects_in_call_order [OF this]
  show ?thesis by (simp add: ex_gz_def)
qed

section \<open>The acceptance rule\<close>

lemma testdrive_all_length:
  "testdrive_all lib m ds ps ns = Inr (m', ds', vs) \<Longrightarrow> length vs = length ns"
  by (induction ns arbitrary: m ds m' ds' vs) (auto split: sum.splits prod.splits)

lemma candidate_goals_nth:
  "candidate_goals self r ns vs = Inr gs \<Longrightarrow> length vs = length ns \<Longrightarrow>
   length gs = length ns \<and>
   (\<forall>j<length ns. \<exists>dj. distance self (ns ! j) = Some dj \<and> gs ! j = vs ! j + r + mu self * dj)"
proof (induction self r ns vs arbitrary: gs rule: candidate_goals.induct)
  case (1 self r n ns v vs)
  then show ?case
    by (auto split: option.splits sum.splits simp: nth_Cons split: nat.splits)
qed auto

lemma candidate_goals_total:
  "length vs = length ns \<Longrightarrow> \<forall>n\<in>set ns. distance self n \<noteq> None \<Longrightarrow>
   \<exists>gs. candidate_goals self r ns vs = Inr gs"
proof (induction self r ns vs rule: candidate_goals.induct)
  case (1 self r n ns v vs)
  then show ?case by (auto split: option.splits sum.splits)
qed auto

lemma argmin_least:
  "xs \<noteq> [] \<Longrightarrow> argmin xs < length xs \<and> (\<forall>j<length xs. xs ! argmin xs \<le> xs ! j)"
proof (induction xs rule: argmin.induct)
  case 1
  then show ?case by simp
next
  case (2 x)
  then show ?case by simp
next
  case (3 x y ys)
  then have ih: "argmin (y # ys) < length (y # ys)"
      "\<forall>j<length (y # ys). (y # ys) ! argmin (y # ys) \<le> (y # ys) ! j" by auto
  show ?case
  proof (cases "x \<le> (y # ys) ! argmin (y # ys)")
    case True
    have "\<forall>j<length (x # y # ys). x \<le> (x # y # ys) ! j"
    proof (intro allI impI)
      fix j assume "j < length (x # y # ys)"
      then show "x \<le> (x # y # ys) ! j"
        using True ih(2) by (cases j) (auto intro: order_trans)
    qed
    with True show ?thesis by (simp add: Let_def)
  next
    case False
    have "\<forall>j<length (x # y # ys). (y # ys) ! argmin (y # ys) \<le> (x # y # ys) ! j"
    proof (intro allI impI)
      fix j assume "j < length (x # y # ys)"
      then show "(y # ys) ! argmin (y # ys) \<le> (x # y # ys) ! j"
        using False ih(2) by (cases j) auto
    qed
    with False ih(1) show ?thesis by (simp add: Let_def)
  qed
qed

lemma judge_Some:
  assumes "judge self goals misfits goal mf = Some (i, g, v)"
  shows "i < length misfits \<and> misfits ! i < mf \<and> \<bar>misfits ! i - mf\<bar> / mf \<ge> delta self
     \<and> g = goals ! i \<and> v = misfits ! i
     \<and> (\<forall>j<length misfits. misfits ! j < mf \<and> \<bar>misfits ! j - mf\<bar> / mf \<ge> delta self
           \<longrightarrow> goals ! i \<le> goals ! j)"
proof -
  define P where "P = (\<lambda>i. misfits ! i < mf \<and> \<bar>misfits ! i - mf\<bar> / mf \<ge> delta self)"
  define dec where "dec = filter P [0..<length misfits]"
  define a where "a = argmin (map (\<lambda>i. goals ! i) dec)"
  from assms have ne: "dec \<noteq> []" and i: "i = dec ! a" and g: "g = goals ! i" and v: "v = misfits ! i"
    by (auto simp: judge_def Let_def dec_def P_def a_def split: if_splits)
  from ne have "map (\<lambda>i. goals ! i) dec \<noteq> []" by simp
  from argmin_least [OF this]
  have al: "a < length dec" and least: "\<forall>j<length dec. goals ! (dec ! a) \<le> goals ! (dec ! j)"
    by (auto simp: a_def)
  from al have "dec ! a \<in> set dec" by simp
  then have ii: "i < length misfits" "P i" using i by (auto simp: dec_def)
  have "goals ! i \<le> goals ! j" if "j < length misfits" "P j" for j
  proof -
    from that have "j \<in> set dec" by (simp add: dec_def)
    then obtain n where "n < length dec" "dec ! n = j" by (auto simp: in_set_conv_nth)
    with least i show ?thesis by auto
  qed
  with ii g v show ?thesis by (auto simp: P_def)
qed

lemma judge_None:
  "\<forall>j<length misfits. \<not> (misfits ! j < mf \<and> \<bar>misfits ! j - mf\<bar> / mf \<ge> delta self) \<Longrightarrow>
   judge self goals misfits goal mf = None"
  by (auto simp: judge_def Let_def filter_empty_conv)

section \<open>Concrete runs\<close>

lemmas ex_eval = ex_row_def ex_seed_def get_distances_def ex_cell_def ex_gz_def ex_pot_def
  harvest_prepare_def initialize_def find_neighbors_def face_indexes_def msize_def mesh_get_def
  not_neighbors_def are_free_def is_neighbor_def in_estimate_def has_prop_def in_props_def
  absolute_distance_def update_def DMPrism_update_def effect_of_prism_def misfit_def ex_lib_def
  ex_norm_def py_sum_def broadcast_def array_iadd_def Let_def testdrive_def DMPrism_testdrive_def
  grow_def judge_def update_neighbors_def

lemma ex_seed_constructed:
  "SeedPrism_init ex_lib i [(p, 1)] ex_row 0 (1 / 10000) False = Inr (ex_seed i p)"
  by (simp add: SeedPrism_init_def ex_seed_def ex_row_def ex_lib_def py_sum_def)

lemma ex_state_prepared:
  "harvest_prepare ex_lib ex_row [ex_gz] [ex_seed 0 ''density'', ex_seed 2 ''density'']
     = Inr ex_state"
  by (simp add: ex_eval ex_state_def)

text \<open>
  C3. The acceptance rule of a growth step, for a current misfit \<open>mf > 0\<close>, where
  \<open>misfits\<close> are the hypothetical misfits the data modules return for the frontier of the
  seed at position \<open>k\<close>. The code tests \<open>abs(m' - mf)/mf >= delta\<close> for a candidate misfit
  \<open>m' < mf\<close>; this is \<open>(mf - m')/mf >= delta\<close> in an arithmetic in which the difference
  \<open>a - b\<close> of \<open>a < b\<close> is the negative of \<open>b - a\<close>, as it is for floating-point numbers,
  whose subtraction rounds symmetrically. If \<open>grow\<close> returns an accretion
  \<open>((idx, ps), g, v)\<close>, then \<open>v < mf\<close> and \<open>(mf - v) / mf \<ge> delta\<close>; the accepted cell is a
  frontier candidate with misfit \<open>v\<close> whose goal \<open>g\<close> is its misfit plus the sum of all
  seeds' regularisation plus \<open>mu\<close> times its stored distance, computed in this order, and
  no candidate that satisfies the misfit condition has a lower goal. If no candidate
  satisfies the misfit condition (and every candidate has a stored distance), \<open>grow\<close>
  returns no growth. No other law of arithmetic is used.
\<close>

theorem grow_acceptance_rule:
  fixes mf :: "'a :: {linorder,zero,one,plus,minus,times,inverse,abs}"
  assumes mf: "0 < mf"
    and sub: "\<And>a b :: 'a. a < b \<Longrightarrow> \<bar>a - b\<bar> = b - a"
    and td: "testdrive_all lib (h_mesh st) (h_dms st) (sprops (h_seeds st ! k))
               (neighbors (h_seeds st ! k)) = Inr (m', ds', misfits)"
  shows "(grow lib st k goal mf = Inr (st', Some ((idx, ps), g, v)) \<longrightarrow>
            v < mf \<and> (mf - v) / mf \<ge> delta (h_seeds st ! k) \<and>
            (\<exists>i<length (neighbors (h_seeds st ! k)). \<exists>di.
               idx = neighbors (h_seeds st ! k) ! i \<and> v = misfits ! i \<and>
               distance (h_seeds st ! k) idx = Some di \<and>
               g = v + py_sum (map reg (h_seeds st)) + mu (h_seeds st ! k) * di \<and>
               (\<forall>j<length (neighbors (h_seeds st ! k)). \<forall>dj.
                  misfits ! j < mf \<and> (mf - misfits ! j) / mf \<ge> delta (h_seeds st ! k) \<and>
                  distance (h_seeds st ! k) (neighbors (h_seeds st ! k) ! j) = Some dj
                  \<longrightarrow> g \<le> misfits ! j + py_sum (map reg (h_seeds st)) + mu (h_seeds st ! k) * dj)))
       \<and> ((\<forall>j<length (neighbors (h_seeds st ! k)).
              \<not> (misfits ! j < mf \<and> (mf - misfits ! j) / mf \<ge> delta (h_seeds st ! k))) \<and>
           (\<forall>n\<in>set (neighbors (h_seeds st ! k)). distance (h_seeds st ! k) n \<noteq> None)
           \<longrightarrow> grow lib st k goal mf = Inr (st\<lparr>h_mesh := m', h_dms := ds'\<rparr>, None))"
proof -
  define self where "self = h_seeds st ! k"
  define r where "r = py_sum (map reg (h_seeds st))"
  have len: "length misfits = length (neighbors self)"
    using testdrive_all_length [OF td] by (simp add: self_def)
  have absq: "\<bar>x - mf\<bar> / mf = (mf - x) / mf" if "x < mf" for x
    using sub [OF that] by simp
  have part1: "v < mf \<and> (mf - v) / mf \<ge> delta self \<and>
            (\<exists>i<length (neighbors self). \<exists>di.
               idx = neighbors self ! i \<and> v = misfits ! i \<and>
               distance self idx = Some di \<and> g = v + r + mu self * di \<and>
               (\<forall>j<length (neighbors self). \<forall>dj.
                  misfits ! j < mf \<and> (mf - misfits ! j) / mf \<ge> delta self \<and>
                  distance self (neighbors self ! j) = Some dj
                  \<longrightarrow> g \<le> misfits ! j + r + mu self * dj))"
    if gr: "grow lib st k goal mf = Inr (st', Some ((idx, ps), g, v))"
  proof -
    from gr td obtain goals i where
      cg: "candidate_goals self r (neighbors self) misfits = Inr goals" and
      j: "judge self goals misfits goal mf = Some (i, g, v)" and
      idx: "idx = neighbors self ! i"
      by (auto simp: grow_def Let_def self_def r_def split: sum.splits option.splits prod.splits)
    from candidate_goals_nth [OF cg len]
    have gl: "length goals = length (neighbors self)"
      and gn: "\<forall>j<length (neighbors self). \<exists>dj. distance self (neighbors self ! j) = Some dj
                 \<and> goals ! j = misfits ! j + r + mu self * dj" by auto
    from judge_Some [OF j]
    have i: "i < length misfits" and ci: "misfits ! i < mf" "\<bar>misfits ! i - mf\<bar> / mf \<ge> delta self"
      and g: "g = goals ! i" and v: "v = misfits ! i"
      and least: "\<forall>j<length misfits. misfits ! j < mf \<and> \<bar>misfits ! j - mf\<bar> / mf \<ge> delta self
           \<longrightarrow> goals ! i \<le> goals ! j" by auto
    from gn i len obtain di where di: "distance self idx = Some di"
      "goals ! i = misfits ! i + r + mu self * di" using idx by auto
    have "g \<le> misfits ! j + r + mu self * dj"
      if "j < length (neighbors self)" "misfits ! j < mf" "(mf - misfits ! j) / mf \<ge> delta self"
         "distance self (neighbors self ! j) = Some dj" for j dj
    proof -
      from that least len absq have "goals ! i \<le> goals ! j" by auto
      moreover from gn that have "goals ! j = misfits ! j + r + mu self * dj" by auto
      ultimately show ?thesis using g by simp
    qed
    with i len ci absq [OF ci(1)] g v di idx show ?thesis by auto
  qed
  have part2: "grow lib st k goal mf = Inr (st\<lparr>h_mesh := m', h_dms := ds'\<rparr>, None)"
    if none: "\<forall>j<length (neighbors self). \<not> (misfits ! j < mf \<and> (mf - misfits ! j) / mf \<ge> delta self)"
      and dist: "\<forall>n\<in>set (neighbors self). distance self n \<noteq> None"
  proof -
    from candidate_goals_total [OF len dist]
    obtain goals where cg: "candidate_goals self r (neighbors self) misfits = Inr goals" by blast
    have "judge self goals misfits goal mf = None"
      using none len absq by (intro judge_None) auto
    with cg td show ?thesis by (simp add: grow_def Let_def self_def r_def)
  qed
  from part1 part2 show ?thesis unfolding self_def r_def by blast
qed

lemma ex_front_testdrive:
  "\<exists>m' ds'. testdrive_all ex_lib_x (h_mesh ex_front) (h_dms ex_front)
          (sprops (h_seeds ex_front ! 0)) (neighbors (h_seeds ex_front ! 0))
        = Inr (m', ds', [1 / 8, 3 / 8])"
  by (simp add: ex_eval ex_front_def ex_lib_x_def ex_pot_x_def)

lemma ex_front_grow:
  "\<exists>st'. grow ex_lib_x ex_front 0 (3 / 4) (1 / 2)
      = Inr (st', Some ((0, [(''density'', 1)]), 3 / 4, 3 / 8))"
  by (simp add: ex_eval ex_front_def ex_lib_x_def ex_pot_x_def)

theorem grow_acceptance_rule_witness:
  "(0::real) < 1 / 2
   \<and> (\<exists>m' ds'. testdrive_all ex_lib_x (h_mesh ex_front) (h_dms ex_front)
          (sprops (h_seeds ex_front ! 0)) (neighbors (h_seeds ex_front ! 0))
        = Inr (m', ds', [1 / 8, 3 / 8]))
   \<and> (\<exists>st'. grow ex_lib_x ex_front 0 (3 / 4) (1 / 2)
          = Inr (st', Some ((0, [(''density'', 1)]), 3 / 4, 3 / 8)))
   \<and> (3 / 8 :: real) < 1 / 2 \<and> delta (h_seeds ex_front ! 0) \<le> (1 / 2 - 3 / 8) / (1 / 2)
   \<and> (3 / 4 :: real) \<le> 1 / 8 + py_sum (map reg (h_seeds ex_front)) + mu (h_seeds ex_front ! 0) * 4"
proof -
  have mf: "(0::real) < 1 / 2" by simp
  have sub: "\<And>a b :: real. a < b \<Longrightarrow> \<bar>a - b\<bar> = b - a" by simp
  from ex_front_testdrive obtain m' ds' where
    td: "testdrive_all ex_lib_x (h_mesh ex_front) (h_dms ex_front)
          (sprops (h_seeds ex_front ! 0)) (neighbors (h_seeds ex_front ! 0))
        = Inr (m', ds', [1 / 8, 3 / 8])" by blast
  from ex_front_grow obtain st' where
    gr: "grow ex_lib_x ex_front 0 (3 / 4) (1 / 2)
          = Inr (st', Some ((0, [(''density'', 1)]), 3 / 4, 3 / 8))" by blast
  note rule = grow_acceptance_rule [OF mf sub td, of "3 / 4" st' 0 "[(''density'', 1)]" "3 / 4" "3 / 8"]
  from rule gr
  have a: "(3 / 8 :: real) < 1 / 2 \<and> delta (h_seeds ex_front ! 0) \<le> (1 / 2 - 3 / 8) / (1 / 2)"
    by blast
  from rule gr
  have "\<forall>j<length (neighbors (h_seeds ex_front ! 0)). \<forall>dj.
          [1 / 8, 3 / 8 :: real] ! j < 1 / 2
          \<and> (1 / 2 - [1 / 8, 3 / 8] ! j) / (1 / 2) \<ge> delta (h_seeds ex_front ! 0)
          \<and> distance (h_seeds ex_front ! 0) (neighbors (h_seeds ex_front ! 0) ! j) = Some dj
          \<longrightarrow> 3 / 4 \<le> [1 / 8, 3 / 8] ! j + py_sum (map reg (h_seeds ex_front))
                       + mu (h_seeds ex_front ! 0) * dj"
    by blast
  from this [rule_format, of 0 4]
  have b: "(3 / 4 :: real) \<le> 1 / 8 + py_sum (map reg (h_seeds ex_front))
             + mu (h_seeds ex_front ! 0) * 4"
    by (simp add: ex_front_def ex_seed_def)
  from mf td gr a b show ?thesis by blast
qed

text \<open>
  C1, as stated, fails for seeds with disjoint property sets: \<open>_in_estimate\<close> only looks
  at seeds that share a property with the growing seed. A density seed on cell 0 of the
  row and a magnetization seed on cell 2: the density seed grows over cell 1 and then
  accretes cell 2, which is in the estimate of the other seed.
\<close>

theorem disjoint_property_seeds_share_a_cell:
  "map_option (map_sum id (\<lambda>r. map estimate (h_seeds (snd r))))
     (harvest ex_lib ex_row [ex_gz] [ex_seed 0 ''density'', ex_seed 2 ''magnetization''] False)
   = Some (Inr [[0, 1, 2], [2]])"
  by (simp add: ex_eval harvest_def harvest_solver.simps)

section \<open>Exclusivity of the estimates\<close>

lemma share_sym: "share s t = share t s"
  by (auto simp: share_def)

lemma share_props: "sprops s' = sprops s \<Longrightarrow> share s' t = share s t"
  "sprops t' = sprops t \<Longrightarrow> share s t' = share s t"
  by (auto simp: share_def)

lemma in_estimate_iff:
  "in_estimate self n ss \<longleftrightarrow> (\<exists>s\<in>set ss. share self s \<and> n \<in> set (estimate s))"
  by (auto simp: in_estimate_def list_ex_iff share_def has_prop_def)

lemma is_neighbor_iff:
  "is_neighbor self n ss \<longleftrightarrow> (\<exists>s\<in>set ss. share self s \<and> n \<in> set (neighbors s))"
  by (auto simp: is_neighbor_def list_ex_iff share_def has_prop_def)

lemma relative_distances_frame:
  "relative_distances lib m s ns = s\<lparr>distance := distance (relative_distances lib m s ns)\<rparr>"
proof (induction ns arbitrary: s)
  case Nil
  then show ?case by simp
next
  case (Cons n ns)
  let ?s1 = "s\<lparr>distance := (distance s)(n \<mapsto> relative_distance lib m s n)\<rparr>"
  from Cons [of ?s1] have "relative_distances lib m ?s1 ns
      = ?s1\<lparr>distance := distance (relative_distances lib m ?s1 ns)\<rparr>" .
  then show ?case by simp
qed

lemma absolute_distances_frame:
  "absolute_distances lib m sc s ns = Inr s' \<Longrightarrow> s' = s\<lparr>distance := distance s'\<rparr>"
proof (induction ns arbitrary: s)
  case Nil
  then show ?case by simp
next
  case (Cons n ns)
  from Cons.prems obtain nc c where
    "absolute_distances lib m sc (s\<lparr>distance := (distance s)(n \<mapsto> absolute_distance lib c nc)\<rparr>) ns = Inr s'"
    by (auto split: sum.splits option.splits)
  from Cons.IH [OF this] show ?case by simp
qed

lemma get_distances_frame:
  "get_distances lib m s ns = Inr s' \<Longrightarrow> s' = s\<lparr>distance := distance s'\<rparr>"
proof (cases "reldist s")
  case True
  assume "get_distances lib m s ns = Inr s'"
  with True have "s' = relative_distances lib m s ns"
    by (auto simp: get_distances_def split: prod.splits if_splits)
  with relative_distances_frame [of lib m s ns] show ?thesis by simp
next
  case False
  assume "get_distances lib m s ns = Inr s'"
  with False obtain sc where "absolute_distances lib m sc s ns = Inr s'"
    by (auto simp: get_distances_def split: sum.splits)
  then show ?thesis by (rule absolute_distances_frame)
qed

lemma excl_extend:
  assumes ex: "excl ss" and k: "k < length ss"
    and pr: "sprops s' = sprops (ss ! k)" and es: "estimate s' = estimate (ss ! k)"
    and nb: "set (neighbors s') \<subseteq> set (neighbors (ss ! k)) \<union> set new"
    and fr: "\<forall>n\<in>set new. \<not> in_estimate (ss ! k) n ss \<and> \<not> is_neighbor (ss ! k) n ss"
  shows "excl (ss[k := s'])"
  unfolding excl_def
proof (intro allI impI)
  fix i j
  assume i: "i < length (ss[k := s'])" and j: "j < length (ss[k := s'])"
    and h: "i \<noteq> j \<and> share (ss[k := s'] ! i) (ss[k := s'] ! j)"
  let ?t = "ss[k := s']"
  from i j have il: "i < length ss" and jl: "j < length ss" by simp_all
  have sh: "share (ss ! i) (ss ! j)"
    using h k pr by (auto simp: nth_list_update share_def split: if_splits)
  from ex il jl h sh have old:
    "set (estimate (ss ! i)) \<inter> set (estimate (ss ! j)) = {}"
    "set (neighbors (ss ! i)) \<inter> set (estimate (ss ! j)) = {}"
    "set (neighbors (ss ! i)) \<inter> set (neighbors (ss ! j)) = {}"
    by (auto simp: excl_def)
  have free: "n \<notin> set (estimate (ss ! q)) \<and> n \<notin> set (neighbors (ss ! q))"
    if "n \<in> set new" "q < length ss" "share (ss ! k) (ss ! q)" for n q
    using fr that by (auto simp: in_estimate_iff is_neighbor_iff)
  show "set (estimate (?t ! i)) \<inter> set (estimate (?t ! j)) = {} \<and>
        set (neighbors (?t ! i)) \<inter> set (estimate (?t ! j)) = {} \<and>
        set (neighbors (?t ! i)) \<inter> set (neighbors (?t ! j)) = {}"
  proof (cases "i = k")
    case True
    with h have jk: "j \<noteq> k" by auto
    from True sh have skj: "share (ss ! k) (ss ! j)" by simp
    have "n \<notin> set (estimate (ss ! j)) \<and> n \<notin> set (neighbors (ss ! j))" if "n \<in> set (neighbors s')" for n
      using that nb old True free [OF _ jl skj] by auto
    with True jk k old es show ?thesis by (auto simp: nth_list_update)
  next
    case False
    show ?thesis
    proof (cases "j = k")
      case True
      from True sh have "share (ss ! k) (ss ! i)" by (simp add: share_sym)
      from free [OF _ il this] have "n \<notin> set (neighbors (ss ! i))" if "n \<in> set new" for n
        using that by auto
      with nb old True have "set (neighbors (ss ! i)) \<inter> set (neighbors s') = {}" by auto
      with True False k old es show ?thesis by (auto simp: nth_list_update)
    next
      case jk: False
      with False old show ?thesis by (simp add: nth_list_update)
    qed
  qed
qed

lemma excl_accrete:
  assumes ex: "excl ss" and k: "k < length ss"
    and pr: "sprops s' = sprops (ss ! k)" and es: "estimate s' = estimate (ss ! k) @ [idx]"
    and nb: "neighbors s' = neighbors (ss ! k)" and idx: "idx \<in> set (neighbors (ss ! k))"
  shows "excl (ss[k := s'])"
  unfolding excl_def
proof (intro allI impI)
  fix i j
  assume i: "i < length (ss[k := s'])" and j: "j < length (ss[k := s'])"
    and h: "i \<noteq> j \<and> share (ss[k := s'] ! i) (ss[k := s'] ! j)"
  let ?t = "ss[k := s']"
  from i j have il: "i < length ss" and jl: "j < length ss" by simp_all
  have sh: "share (ss ! i) (ss ! j)"
    using h k pr by (auto simp: nth_list_update share_def split: if_splits)
  from ex il jl h sh have old:
    "set (estimate (ss ! i)) \<inter> set (estimate (ss ! j)) = {}"
    "set (neighbors (ss ! i)) \<inter> set (estimate (ss ! j)) = {}"
    "set (neighbors (ss ! i)) \<inter> set (neighbors (ss ! j)) = {}"
    by (auto simp: excl_def)
  from sh have sh': "share (ss ! j) (ss ! i)" by (simp add: share_sym)
  from ex il jl h sh' have old':
    "set (neighbors (ss ! j)) \<inter> set (estimate (ss ! i)) = {}"
    by (auto simp: excl_def)
  show "set (estimate (?t ! i)) \<inter> set (estimate (?t ! j)) = {} \<and>
        set (neighbors (?t ! i)) \<inter> set (estimate (?t ! j)) = {} \<and>
        set (neighbors (?t ! i)) \<inter> set (neighbors (?t ! j)) = {}"
  proof (cases "i = k")
    case True
    with h have jk: "j \<noteq> k" by auto
    from True jk k old idx es nb show ?thesis by (auto simp: nth_list_update)
  next
    case False
    show ?thesis
    proof (cases "j = k")
      case True
      from True False k old old' idx es nb show ?thesis by (auto simp: nth_list_update)
    next
      case jk: False
      with False old show ?thesis by (simp add: nth_list_update)
    qed
  qed
qed

lemma initialize_excl:
  assumes "initialize lib m ss k = Inr ss'" and "k < length ss" and "excl ss"
  shows "excl ss' \<and> map sprops ss' = map sprops ss"
proof -
  let ?self = "ss ! k"
  from assms(1) obtain found s2 where
    f: "find_neighbors m (index ?self) = Inr found"
    and g: "get_distances lib m
         (?self\<lparr>neighbors := neighbors ?self @ not_neighbors ?self ss (are_free ?self ss found)\<rparr>)
         (neighbors ?self @ not_neighbors ?self ss (are_free ?self ss found)) = Inr s2"
    and r: "ss' = ss[k := s2]"
    by (auto simp: initialize_def Let_def split: sum.splits)
  let ?new = "not_neighbors ?self ss (are_free ?self ss found)"
  note e = get_distances_frame [OF g]
  have s2: "sprops s2 = sprops ?self" "estimate s2 = estimate ?self"
    "neighbors s2 = neighbors ?self @ ?new"
    by (subst e, simp)+
  have fr: "\<forall>n\<in>set ?new. \<not> in_estimate ?self n ss \<and> \<not> is_neighbor ?self n ss"
    by (auto simp: not_neighbors_def are_free_def)
  have "excl (ss[k := s2])"
    by (rule excl_extend [OF assms(3,2) s2(1,2) _ fr]) (simp add: s2(3))
  moreover have "map sprops (ss[k := s2]) = map sprops ss"
    using assms(2) s2(1) by (simp add: map_update list_update_same_conv)
  ultimately show ?thesis by (simp add: r)
qed

lemma update_neighbors_shape:
  assumes "update_neighbors lib m ss k n = Inr ss'"
  shows "\<exists>s2 found. ss' = ss[k := s2] \<and> find_neighbors m n = Inr found
           \<and> n \<in> set (neighbors (ss ! k))
           \<and> s2 = (ss ! k)\<lparr>neighbors := remove1 n (neighbors (ss ! k))
                                  @ not_neighbors (ss ! k) ss (are_free (ss ! k) ss found),
                             distance := distance s2\<rparr>"
proof -
  let ?self = "ss ! k"
  from assms obtain found s2 where
    f: "find_neighbors m n = Inr found" and n: "n \<in> set (neighbors ?self)"
    and g: "get_distances lib m
         (?self\<lparr>neighbors := remove1 n (neighbors ?self)
                     @ not_neighbors ?self ss (are_free ?self ss found),
                 distance := (distance ?self)(n := None)\<rparr>)
         (not_neighbors ?self ss (are_free ?self ss found)) = Inr s2"
    and r: "ss' = ss[k := s2]"
    by (auto simp: update_neighbors_def Let_def split: sum.splits if_splits)
  note e = get_distances_frame [OF g]
  have "s2 = ?self\<lparr>neighbors := remove1 n (neighbors ?self)
                     @ not_neighbors ?self ss (are_free ?self ss found),
                 distance := distance s2\<rparr>"
    by (subst e) simp
  with f n r show ?thesis by blast
qed

lemma update_neighbors_excl:
  assumes "update_neighbors lib m ss k n = Inr ss'" and "k < length ss" and "excl ss"
  shows "excl ss' \<and> map sprops ss' = map sprops ss"
proof -
  let ?self = "ss ! k"
  from update_neighbors_shape [OF assms(1)] obtain s2 found where
    r: "ss' = ss[k := s2]"
    and e: "s2 = ?self\<lparr>neighbors := remove1 n (neighbors ?self)
                     @ not_neighbors ?self ss (are_free ?self ss found),
                 distance := distance s2\<rparr>" by blast
  let ?new = "not_neighbors ?self ss (are_free ?self ss found)"
  have s2: "sprops s2 = sprops ?self" "estimate s2 = estimate ?self"
    "neighbors s2 = remove1 n (neighbors ?self) @ ?new"
    by (subst e, simp)+
  have fr: "\<forall>n\<in>set ?new. \<not> in_estimate ?self n ss \<and> \<not> is_neighbor ?self n ss"
    by (auto simp: not_neighbors_def are_free_def)
  have sub: "set (neighbors s2) \<subseteq> set (neighbors ?self) \<union> set ?new"
    using set_remove1_subset [of n "neighbors ?self"] by (auto simp: s2(3))
  have "excl (ss[k := s2])"
    by (rule excl_extend [OF assms(3,2) s2(1,2) sub fr])
  moreover have "map sprops (ss[k := s2]) = map sprops ss"
    using assms(2) s2(1) by (simp add: map_update list_update_same_conv)
  ultimately show ?thesis by (simp add: r)
qed

lemma grow_cases [consumes 1, case_names none some]:
  assumes "grow lib st k goal mf = Inr (st', ch)"
  obtains (none) "ch = None" "h_seeds st' = h_seeds st" "h_goals st' = h_goals st"
      "h_misfits st' = h_misfits st"
    | (some) idx g v r where "ch = Some ((idx, sprops (h_seeds st ! k)), g, v)"
      "idx \<in> set (neighbors (h_seeds st ! k))"
      "update_neighbors lib (h_mesh st')
         ((h_seeds st)[k := (h_seeds st ! k)\<lparr>estimate := estimate (h_seeds st ! k) @ [idx],
                                             reg := r\<rparr>]) k idx = Inr (h_seeds st')"
      "h_goals st' = h_goals st" "h_misfits st' = h_misfits st"
proof -
  let ?self = "h_seeds st ! k"
  from assms obtain m' ds' misfits goals where
    td: "testdrive_all lib (h_mesh st) (h_dms st) (sprops ?self) (neighbors ?self) = Inr (m', ds', misfits)"
    and cg: "candidate_goals ?self (py_sum (map reg (h_seeds st))) (neighbors ?self) misfits = Inr goals"
    unfolding grow_def Let_def by (simp split: sum.splits prod.splits)
  show thesis
  proof (cases "judge ?self goals misfits goal mf")
    case None
    with assms td cg have "ch = None" "st' = st\<lparr>h_mesh := m', h_dms := ds'\<rparr>"
      unfolding grow_def Let_def by simp_all
    then show thesis by (intro none) simp_all
  next
    case (Some a)
    obtain i g v where a: "a = (i, g, v)" by (cases a)
    from judge_Some [OF Some [unfolded a]] testdrive_all_length [OF td]
    have il: "i < length (neighbors ?self)" by simp
    from assms td cg Some a obtain dn where dn: "distance ?self (neighbors ?self ! i) = Some dn"
      unfolding grow_def Let_def by (simp split: option.splits)
    from assms td cg Some a dn obtain seeds' where
      un: "update_neighbors lib m'
          ((h_seeds st)[k := ?self\<lparr>estimate := estimate ?self @ [neighbors ?self ! i],
                                   reg := reg ?self + mu ?self * dn\<rparr>]) k (neighbors ?self ! i)
           = Inr seeds'"
      unfolding grow_def Let_def by (simp split: sum.splits)
    from assms td cg Some a dn un
    have st': "st' = st\<lparr>h_mesh := m', h_dms := ds', h_seeds := seeds'\<rparr>"
      and ch: "ch = Some ((neighbors ?self ! i, sprops ?self), g, v)"
      unfolding grow_def Let_def by simp_all
    from il have "neighbors ?self ! i \<in> set (neighbors ?self)" by simp
    with un st' ch show thesis by (intro some [of "neighbors ?self ! i" g v]) simp_all
  qed
qed

lemma grow_excl:
  assumes "grow lib st k goal mf = Inr (st', ch)" and "k < length (h_seeds st)"
    and "excl (h_seeds st)"
  shows "excl (h_seeds st') \<and> map sprops (h_seeds st') = map sprops (h_seeds st)"
  using assms(1)
proof (cases rule: grow_cases)
  case none
  with assms(3) show ?thesis by simp
next
  case (some idx g v r)
  let ?ss = "h_seeds st"
  let ?s1 = "(?ss ! k)\<lparr>estimate := estimate (?ss ! k) @ [idx], reg := r\<rparr>"
  have e1: "excl (?ss[k := ?s1])"
    by (rule excl_accrete [OF assms(3,2) _ _ _ some(2)]) simp_all
  have p1: "map sprops (?ss[k := ?s1]) = map sprops ?ss"
    using assms(2) by (simp add: map_update list_update_same_conv)
  from update_neighbors_excl [OF some(3) _ e1] assms(2) p1 show ?thesis by simp
qed

lemma seed_pass_single:
  assumes "seed_pass lib st grew [k] = Inr (st', grew')"
  shows "\<exists>st1 ch. grow lib st k (last (h_goals st)) (last (h_misfits st)) = Inr (st1, ch)
           \<and> h_seeds st' = h_seeds st1
           \<and> ((ch = None \<and> h_goals st' = h_goals st1 \<and> grew' = grew) \<or>
              (ch \<noteq> None \<and> length (h_goals st') = Suc (length (h_goals st1)) \<and> grew'))"
proof (cases "grow lib st k (last (h_goals st)) (last (h_misfits st))")
  case (Inl e)
  with assms show ?thesis by simp
next
  case (Inr r)
  obtain st1 ch where r: "r = (st1, ch)" by (cases r)
  show ?thesis
  proof (cases ch)
    case None
    with assms Inr r show ?thesis by simp
  next
    case (Some c)
    obtain params g v where c: "c = (params, g, v)" by (cases c)
    from assms Inr r Some c obtain m2 ds2 where
      "update_all lib (h_mesh st1) (h_dms st1) params = Inr (m2, ds2)"
      and st': "st' = st1\<lparr>h_mesh := m2, h_dms := ds2, h_goals := h_goals st1 @ [g],
                  h_misfits := h_misfits st1 @ [v]\<rparr>" and g': "grew'"
      by (auto split: sum.splits)
    have "h_seeds st' = h_seeds st1" "length (h_goals st') = Suc (length (h_goals st1))"
      by (simp_all add: st')
    with Inr r Some g' show ?thesis by blast
  qed
qed

lemma seed_pass_excl:
  assumes "seed_pass lib st grew [k] = Inr (st', grew')" and "k < length (h_seeds st)"
    and "excl (h_seeds st)"
  shows "excl (h_seeds st') \<and> map sprops (h_seeds st') = map sprops (h_seeds st)"
proof -
  from seed_pass_single [OF assms(1)] obtain st1 ch where
    "grow lib st k (last (h_goals st)) (last (h_misfits st)) = Inr (st1, ch)"
    "h_seeds st' = h_seeds st1" by blast
  with grow_excl [OF _ assms(2,3)] show ?thesis by simp
qed

lemma reaches_excl:
  assumes "solver_reaches lib st0 st" and "excl (h_seeds st0)"
  shows "excl (h_seeds st) \<and> map sprops (h_seeds st) = map sprops (h_seeds st0)"
  using assms
proof (induction rule: solver_reaches.induct)
  case start
  then show ?case by simp
next
  case (attempt st k grew st' grew')
  from attempt.IH [OF attempt.prems]
  have a: "excl (h_seeds st)" and b: "map sprops (h_seeds st) = map sprops (h_seeds st0)"
    by blast+
  from seed_pass_excl [OF attempt.hyps(3,2) a] b show ?case by simp
qed

lemma seed_pass_split:
  assumes "seed_pass lib st grew (k # ks) = Inr (st', grew')"
  shows "\<exists>st1 g1. seed_pass lib st grew [k] = Inr (st1, g1) \<and> seed_pass lib st1 g1 ks = Inr (st', grew')"
proof (cases "grow lib st k (last (h_goals st)) (last (h_misfits st))")
  case (Inl e)
  with assms show ?thesis by simp
next
  case (Inr r)
  obtain st1 ch where r: "r = (st1, ch)" by (cases r)
  show ?thesis
  proof (cases ch)
    case None
    with assms Inr r show ?thesis by simp
  next
    case (Some c)
    obtain params g v where c: "c = (params, g, v)" by (cases c)
    show ?thesis
    proof (cases "update_all lib (h_mesh st1) (h_dms st1) params")
      case (Inl e)
      with assms Inr r Some c show ?thesis by simp
    next
      case ua: (Inr q)
      obtain m2 ds2 where q: "q = (m2, ds2)" by (cases q)
      from assms Inr r Some c ua q show ?thesis by simp blast
    qed
  qed
qed

lemma grow_length:
  assumes "grow lib st k goal mf = Inr (st', ch)"
  shows "length (h_seeds st') = length (h_seeds st)"
  using assms
proof (cases rule: grow_cases)
  case none
  then show ?thesis by simp
next
  case (some idx g v r)
  from update_neighbors_shape [OF some(3)] obtain s2 where
    "h_seeds st' = ((h_seeds st)[k := (h_seeds st ! k)\<lparr>estimate := estimate (h_seeds st ! k) @ [idx],
        reg := r\<rparr>])[k := s2]" by blast
  then show ?thesis by simp
qed

lemma seed_pass_length:
  assumes "seed_pass lib st grew [k] = Inr (st', grew')"
  shows "length (h_seeds st') = length (h_seeds st)"
proof -
  from seed_pass_single [OF assms] obtain st1 ch where
    g: "grow lib st k (last (h_goals st)) (last (h_misfits st)) = Inr (st1, ch)"
    and s: "h_seeds st' = h_seeds st1" by blast
  from grow_length [OF g] s show ?thesis by simp
qed

lemma seed_pass_reaches:
  assumes "seed_pass lib st grew ks = Inr (st', grew')" and "solver_reaches lib st0 st"
    and "\<forall>k\<in>set ks. k < length (h_seeds st)"
  shows "solver_reaches lib st0 st'"
  using assms
proof (induction ks arbitrary: st grew)
  case Nil
  then show ?case by simp
next
  case (Cons k ks)
  from seed_pass_split [OF Cons.prems(1)] obtain st1 g1 where
    a: "seed_pass lib st grew [k] = Inr (st1, g1)" and b: "seed_pass lib st1 g1 ks = Inr (st', grew')"
    by blast
  from Cons.prems(3) have k: "k < length (h_seeds st)" by simp
  from solver_reaches.attempt [OF Cons.prems(2) k a] have r: "solver_reaches lib st0 st1" .
  from seed_pass_length [OF a] Cons.prems(3) have "\<forall>k\<in>set ks. k < length (h_seeds st1)" by simp
  from Cons.IH [OF b r this] show ?case .
qed

lemma solver_final_reaches:
  assumes "harvest_solver lib st = Some (Inr st')" and "solver_reaches lib st0 st"
  shows "solver_reaches lib st0 st'"
proof -
  define P where "P = (\<lambda>(p::'a lib) s (y::err + 'a hstate).
     \<forall>s'. y = Inr s' \<longrightarrow> solver_reaches p st0 s \<longrightarrow> solver_reaches p st0 s')"
  have "P lib st (Inr st')"
  proof (rule harvest_solver.raw_induct [where P = P, OF _ assms(1)])
    fix hs :: "'a lib \<Rightarrow> 'a hstate \<Rightarrow> (err + 'a hstate) option" and p s y
    assume ih: "\<And>p' s' y'. hs p' s' = Some y' \<Longrightarrow> P p' s' y'"
      and body: "(case seed_pass p s False [0..<length (h_seeds s)] of
                    Inl e \<Rightarrow> Some (Inl e)
                  | Inr (s', grew) \<Rightarrow> if grew then hs p s' else Some (Inr s')) = Some y"
    show "P p s y"
      unfolding P_def
    proof (intro allI impI)
      fix s' assume y: "y = Inr s'" and r: "solver_reaches p st0 s"
      from body y obtain s1 grew where
        sp: "seed_pass p s False [0..<length (h_seeds s)] = Inr (s1, grew)"
        by (auto split: sum.splits)
      from seed_pass_reaches [OF sp r] have r1: "solver_reaches p st0 s1" by simp
      show "solver_reaches p st0 s'"
      proof (cases grew)
        case True
        with body sp y have "hs p s1 = Some (Inr s')" by simp
        from ih [OF this] r1 show ?thesis by (simp add: P_def)
      next
        case False
        with body sp y have "s' = s1" by simp
        with r1 show ?thesis by simp
      qed
    qed
  qed
  with assms(2) show ?thesis by (simp add: P_def)
qed

lemma initialize_all_excl:
  assumes "initialize_all lib m ss ks = Inr ss'" and "\<forall>k\<in>set ks. k < length ss" and "excl ss"
  shows "excl ss' \<and> map sprops ss' = map sprops ss"
  using assms
proof (induction ks arbitrary: ss)
  case Nil
  then show ?case by simp
next
  case (Cons k ks)
  from Cons.prems(1) obtain s1 where
    a: "initialize lib m ss k = Inr s1" and b: "initialize_all lib m s1 ks = Inr ss'"
    by (auto split: sum.splits)
  from Cons.prems(2) have k: "k < length ss" by simp
  from initialize_excl [OF a k Cons.prems(3)] have e: "excl s1" and p: "map sprops s1 = map sprops ss"
    by simp_all
  from arg_cong [OF p, of length] have "length s1 = length ss" by simp
  with Cons.prems(2) have "\<forall>k\<in>set ks. k < length s1" by simp
  from Cons.IH [OF b this e] p show ?case by simp
qed

lemma harvest_prepare_seeds:
  assumes "harvest_prepare lib m dms seeds = Inr st0"
  shows "initialize_all lib m seeds [0..<length seeds] = Inr (h_seeds st0)"
  using assms
  by (auto simp: harvest_prepare_def Let_def split: list.splits if_splits sum.splits prod.splits)

text \<open>
  C1, amended. For freshly constructed seeds (empty frontier, estimate holding the seed's
  own cell) of which any two that share a physical property sit on different cells: in
  every state the solver passes through after the preparation of \<open>harvest\<close>, and in the
  state it returns, two different seeds that share a physical property have no cell in
  common in their estimates. (Seeds with disjoint property sets can come to hold the same
  cell.)
\<close>

theorem estimates_exclusive_for_sharing_seeds:
  assumes fresh: "\<forall>s\<in>set seeds. neighbors s = [] \<and> estimate s = [index s]"
    and apart: "\<forall>i<length seeds. \<forall>j<length seeds. i \<noteq> j \<and>
                  (\<exists>p. has_prop p (sprops (seeds ! i)) \<and> has_prop p (sprops (seeds ! j)))
                  \<longrightarrow> index (seeds ! i) \<noteq> index (seeds ! j)"
    and prep: "harvest_prepare lib m dms seeds = Inr st0"
    and run: "solver_reaches lib st0 st \<or> harvest_solver lib st0 = Some (Inr st)"
    and ij: "i < length seeds" "j < length seeds" "i \<noteq> j"
    and sh: "has_prop p (sprops (seeds ! i))" "has_prop p (sprops (seeds ! j))"
  shows "length (h_seeds st) = length seeds \<and>
         set (estimate (h_seeds st ! i)) \<inter> set (estimate (h_seeds st ! j)) = {}"
proof -
  have e0: "excl seeds"
    unfolding excl_def
  proof (intro allI impI)
    fix a b assume a: "a < length seeds" and b: "b < length seeds"
      and h: "a \<noteq> b \<and> share (seeds ! a) (seeds ! b)"
    from a b fresh have "neighbors (seeds ! a) = []" "estimate (seeds ! a) = [index (seeds ! a)]"
      "neighbors (seeds ! b) = []" "estimate (seeds ! b) = [index (seeds ! b)]" by simp_all
    moreover from apart a b h have "index (seeds ! a) \<noteq> index (seeds ! b)"
      by (auto simp: share_def)
    ultimately show "set (estimate (seeds ! a)) \<inter> set (estimate (seeds ! b)) = {} \<and>
        set (neighbors (seeds ! a)) \<inter> set (estimate (seeds ! b)) = {} \<and>
        set (neighbors (seeds ! a)) \<inter> set (neighbors (seeds ! b)) = {}" by simp
  qed
  from initialize_all_excl [OF harvest_prepare_seeds [OF prep] _ e0]
  have e1: "excl (h_seeds st0)" and p1: "map sprops (h_seeds st0) = map sprops seeds" by simp_all
  from run solver_final_reaches [OF _ solver_reaches.start] have "solver_reaches lib st0 st" by blast
  from reaches_excl [OF this e1] p1
  have e: "excl (h_seeds st)" and p: "map sprops (h_seeds st) = map sprops seeds" by simp_all
  from arg_cong [OF p, of length] have len: "length (h_seeds st) = length seeds" by simp
  have "sprops (h_seeds st ! q) = sprops (seeds ! q)" if "q < length seeds" for q
    using arg_cong [OF p, of "\<lambda>l. l ! q"] that len by simp
  with ij have "sprops (h_seeds st ! i) = sprops (seeds ! i)"
    "sprops (h_seeds st ! j) = sprops (seeds ! j)" by simp_all
  with sh have "share (h_seeds st ! i) (h_seeds st ! j)" by (auto simp: share_def)
  with e ij len show ?thesis by (auto simp: excl_def)
qed

theorem estimates_exclusive_for_sharing_seeds_witness:
  "harvest_prepare ex_lib ex_row [ex_gz] [ex_seed 0 ''density'', ex_seed 2 ''density''] = Inr ex_state
   \<and> has_prop ''density'' (sprops (ex_seed 0 ''density''))
   \<and> has_prop ''density'' (sprops (ex_seed 2 ''density''))
   \<and> (\<exists>st. harvest_solver ex_lib ex_state = Some (Inr st)
          \<and> map estimate (h_seeds st) = [[0, 1], [2]]
          \<and> set (estimate (h_seeds st ! 0)) \<inter> set (estimate (h_seeds st ! 1)) = {})"
proof -
  let ?seeds = "[ex_seed 0 ''density'', ex_seed 2 ''density'']"
  have fresh: "\<forall>s\<in>set ?seeds. neighbors s = [] \<and> estimate s = [index s]"
    by (simp add: ex_seed_def ex_row_def)
  have apart: "\<forall>i<length ?seeds. \<forall>j<length ?seeds. i \<noteq> j \<and>
                  (\<exists>p. has_prop p (sprops (?seeds ! i)) \<and> has_prop p (sprops (?seeds ! j)))
                  \<longrightarrow> index (?seeds ! i) \<noteq> index (?seeds ! j)"
    by (auto simp: less_Suc_eq ex_seed_def ex_row_def)
  have p0: "has_prop ''density'' (sprops (?seeds ! 0))" and p1: "has_prop ''density'' (sprops (?seeds ! 1))"
    by (simp_all add: ex_seed_def ex_row_def has_prop_def)
  obtain st where run: "harvest_solver ex_lib ex_state = Some (Inr st)"
    and est: "map estimate (h_seeds st) = [[0, 1], [2]]"
    by (simp add: ex_eval ex_state_def harvest_solver.simps)
  from estimates_exclusive_for_sharing_seeds
         [OF fresh apart ex_state_prepared disjI2 [OF run] _ _ _ p0 p1]
  have "set (estimate (h_seeds st ! 0)) \<inter> set (estimate (h_seeds st ! 1)) = {}" by simp
  with ex_state_prepared p0 p1 run est show ?thesis by auto
qed

section \<open>Termination of the solver\<close>

lemma present_sound:
  "present m xs = Inr r \<Longrightarrow>
     (\<forall>i\<in>set r. Some i \<in> set xs \<and> 0 \<le> i \<and> i < int (length (cells m))) \<and>
     (distinct (List.map_filter id xs) \<longrightarrow> distinct r) \<and> set r \<subseteq> set (List.map_filter id xs)"
proof (induction m xs arbitrary: r rule: present.induct)
  case (1 m)
  then show ?case by simp
next
  case (2 m xs)
  then show ?case by (simp add: List.map_filter_simps)
next
  case (3 m i xs)
  show ?case
  proof (cases "mesh_get m i")
    case (Inl e)
    with 3(3) show ?thesis by simp
  next
    case (Inr co)
    then have rng: "0 \<le> i" "i < int (length (cells m))"
      by (auto simp: mesh_get_def split: if_splits)
    show ?thesis
    proof (cases co)
      case None
      with 3(1) [OF Inr None] 3(3) Inr show ?thesis
        by (auto simp: List.map_filter_simps)
    next
      case (Some c)
      with 3(3) Inr obtain r' where r': "present m xs = Inr r'" "r = i # r'"
        by (auto split: sum.splits)
      from 3(2) [OF Inr Some r'(1)] r'(2) rng show ?thesis
        by (auto simp: List.map_filter_simps)
    qed
  qed
qed

lemma face_indexes_distinct:
  assumes "shape m = (nz, ny, nx)" and "0 < nx" and "0 < ny"
  shows "distinct (List.map_filter id (face_indexes m n))"
proof -
  define q where "q = nx * ny"
  have q0: "0 < q" using assms by (simp add: q_def)
  have qn: "nx \<le> q" using assms by (simp add: q_def)
  have fr: "n mod nx < nx - 1 \<Longrightarrow> 2 \<le> nx"
    using assms(2) pos_mod_sign [of nx n] by linarith
  have bk: "n mod nx \<noteq> 0 \<Longrightarrow> 2 \<le> nx"
    using assms(2) by (cases "nx = 1") auto
  have q2: "2 \<le> nx \<Longrightarrow> 2 \<le> q"
    using qn by linarith
  have lf: "n mod q < nx * (ny - 1) \<Longrightarrow> nx < q"
  proof -
    assume a: "n mod q < nx * (ny - 1)"
    have "0 \<le> n mod q" using q0 by simp
    with a have "0 < nx * (ny - 1)" by linarith
    with assms(2) have "0 < ny - 1" by (simp add: zero_less_mult_iff)
    then have "2 \<le> ny" by linarith
    with assms(2) have "nx * 2 \<le> nx * ny" by (intro mult_left_mono) auto
    with assms(2) show "nx < q" by (simp add: q_def)
  qed
  have rt: "nx \<le> n mod q \<Longrightarrow> nx < q"
    using pos_mod_bound [OF q0, of n] by linarith
  show ?thesis
    using q0 assms(2) fr bk q2 lf rt
    unfolding face_indexes_def assms(1) msize_def q_def [symmetric]
    by (auto simp: List.map_filter_simps q_def [symmetric])
qed

lemma find_neighbors_ok:
  assumes "find_neighbors m n = Inr found" and "shape m = (nz, ny, nx)" and "0 < nx" and "0 < ny"
  shows "distinct found \<and> (\<forall>i\<in>set found. 0 \<le> i \<and> i < int (length (cells m)))"
proof -
  from assms have p: "present m (face_indexes m n) = Inr found"
    by (auto simp: find_neighbors_def split: if_splits)
  from present_sound [OF p] face_indexes_distinct [OF assms(2,3,4)] show ?thesis by blast
qed

lemma mframe_refl: "mframe m m"
  by (simp add: mframe_def)

lemma mframe_trans: "mframe a b \<Longrightarrow> mframe b c \<Longrightarrow> mframe a c"
  by (simp add: mframe_def)

lemma write_props_frame: "write_props m i ps = Inr m' \<Longrightarrow> mframe m m'"
  by (auto simp: write_props_def mframe_def mesh_put_def split: sum.splits option.splits if_splits)

lemma testdrive_frame: "testdrive lib m d el = Inr (m', d', v) \<Longrightarrow> mframe m m'"
  by (cases el)
     (auto simp: testdrive_def DMPrismI2_testdrive_def mframe_refl
           split: if_splits sum.splits prod.splits dest: write_props_frame)

lemma update_frame: "update lib m d el = Inr (m', d') \<Longrightarrow> mframe m m'"
  by (cases el)
     (auto simp: update_def DMPrismI2_update_def Let_def mframe_refl
           split: if_splits sum.splits prod.splits dest: write_props_frame)

lemma testdrive_sum_frame: "testdrive_sum lib m ds el acc = Inr (m', ds', v) \<Longrightarrow> mframe m m'"
proof (induction ds arbitrary: m m' ds' v acc)
  case Nil
  then show ?case by (simp add: mframe_refl)
next
  case (Cons d ds)
  from Cons.prems obtain m1 d1 v1 m2 ds2 v2 where
    a: "testdrive lib m d el = Inr (m1, d1, v1)" and b: "testdrive_sum lib m1 ds el (acc + v1) = Inr (m2, ds2, v2)"
    and c: "m' = m2"
    by (auto split: sum.splits prod.splits)
  from testdrive_frame [OF a] Cons.IH [OF b] c show ?case by (auto intro: mframe_trans)
qed

lemma testdrive_all_frame: "testdrive_all lib m ds ps ns = Inr (m', ds', vs) \<Longrightarrow> mframe m m'"
proof (induction ns arbitrary: m ds m' ds' vs)
  case Nil
  then show ?case by (simp add: mframe_refl)
next
  case (Cons n ns)
  from Cons.prems obtain m1 d1 v1 m2 ds2 v2 where
    a: "testdrive_sum lib m ds (n, ps) 0 = Inr (m1, d1, v1)"
    and b: "testdrive_all lib m1 d1 ps ns = Inr (m2, ds2, v2)" and c: "m' = m2"
    by (auto split: sum.splits prod.splits)
  from testdrive_sum_frame [OF a] Cons.IH [OF b] c show ?case by (auto intro: mframe_trans)
qed

lemma update_all_frame: "update_all lib m ds el = Inr (m', ds') \<Longrightarrow> mframe m m'"
proof (induction ds arbitrary: m m' ds')
  case Nil
  then show ?case by (simp add: mframe_refl)
next
  case (Cons d ds)
  from Cons.prems obtain m1 d1 m2 ds2 where
    a: "update lib m d el = Inr (m1, d1)" and b: "update_all lib m1 ds el = Inr (m2, ds2)"
    and c: "m' = m2"
    by (auto split: sum.splits prod.splits)
  from update_frame [OF a] Cons.IH [OF b] c show ?case by (auto intro: mframe_trans)
qed

lemma update_seeds_frame: "update_seeds lib m d ss = Inr (m', d') \<Longrightarrow> mframe m m'"
proof (induction ss arbitrary: m d)
  case Nil
  then show ?case by (simp add: mframe_refl)
next
  case (Cons s ss)
  from Cons.prems obtain m1 d1 where
    a: "update lib m d (index s, sprops s) = Inr (m1, d1)" and b: "update_seeds lib m1 d1 ss = Inr (m', d')"
    by (auto split: sum.splits prod.splits)
  from update_frame [OF a] Cons.IH [OF b] show ?case by (auto intro: mframe_trans)
qed

lemma init_dms_frame: "init_dms lib n m ds ss = Inr (m', ds') \<Longrightarrow> mframe m m'"
proof (induction ds arbitrary: m m' ds')
  case Nil
  then show ?case by (simp add: mframe_refl)
next
  case (Cons d ds)
  from Cons.prems obtain m1 d1 m2 ds2 where
    a: "update_seeds lib m (d\<lparr>weight := weight d / n\<rparr>) ss = Inr (m1, d1)"
    and b: "init_dms lib n m1 ds ss = Inr (m2, ds2)" and c: "m' = m2"
    by (auto split: sum.splits prod.splits)
  from update_seeds_frame [OF a] Cons.IH [OF b] c show ?case by (auto intro: mframe_trans)
qed

lemma share_self: "sprops s \<noteq> [] \<Longrightarrow> share s s"
  by (cases "sprops s") (auto simp: share_def has_prop_def)

lemma own_extend:
  assumes k: "k < length ss" and props: "sprops (ss ! k) \<noteq> []"
    and de: "distinct (estimate (ss ! k))"
    and re: "\<forall>n\<in>set (estimate (ss ! k)). n = index (ss ! k) \<or> (0 \<le> n \<and> n < int N)"
    and db: "distinct base" and sb: "set base \<subseteq> set (neighbors (ss ! k))"
    and be: "set base \<inter> set (estimate (ss ! k)) = {}"
    and rb: "\<forall>n\<in>set base. 0 \<le> n \<and> n < int N"
    and filt: "\<forall>n\<in>set new. \<not> in_estimate (ss ! k) n ss \<and> \<not> is_neighbor (ss ! k) n ss"
    and dn: "distinct new" and rn: "\<forall>n\<in>set new. 0 \<le> n \<and> n < int N"
    and s': "sprops s' = sprops (ss ! k)" "estimate s' = estimate (ss ! k)"
        "neighbors s' = base @ new" "index s' = index (ss ! k)"
  shows "own_ok N s'"
proof -
  from k have mem: "ss ! k \<in> set ss" by simp
  from share_self [OF props] mem filt
  have ne: "\<forall>n\<in>set new. n \<notin> set (estimate (ss ! k)) \<and> n \<notin> set (neighbors (ss ! k))"
    by (auto simp: in_estimate_iff is_neighbor_iff)
  with sb have "set base \<inter> set new = {}" by auto
  with db dn have "distinct (base @ new)" by simp
  moreover from ne be have "set (base @ new) \<inter> set (estimate (ss ! k)) = {}" by auto
  moreover from rb rn have "\<forall>n\<in>set (base @ new). 0 \<le> n \<and> n < int N" by auto
  ultimately show ?thesis
    using props de re s' unfolding own_ok_def by simp
qed

lemma est_total_update:
  "k < length ss \<Longrightarrow>
   est_total (ss[k := s']) + length (estimate (ss ! k)) = est_total ss + length (estimate s')"
  unfolding est_total_def
proof (induction ss arbitrary: k)
  case Nil
  then show ?case by simp
next
  case (Cons a ss)
  then show ?case by (cases k) auto
qed

lemma all_update:
  assumes "\<forall>s\<in>set ss. P s" and "P s'"
  shows "\<forall>s\<in>set (ss[k := s']). P s"
  using assms set_update_subset_insert [of ss k s'] by auto

lemma initialize_own:
  assumes init: "initialize lib m ss k = Inr ss'" and k: "k < length ss"
    and sh: "shape m = (nz, ny, nx)" "0 < nx" "0 < ny" and N: "length (cells m) = N"
    and ok: "\<forall>s\<in>set ss. own_ok N s"
  shows "(\<forall>s\<in>set ss'. own_ok N s) \<and> est_total ss' = est_total ss \<and> length ss' = length ss"
proof -
  let ?self = "ss ! k"
  from init obtain found s2 where
    f: "find_neighbors m (index ?self) = Inr found"
    and g: "get_distances lib m
         (?self\<lparr>neighbors := neighbors ?self @ not_neighbors ?self ss (are_free ?self ss found)\<rparr>)
         (neighbors ?self @ not_neighbors ?self ss (are_free ?self ss found)) = Inr s2"
    and r: "ss' = ss[k := s2]"
    by (auto simp: initialize_def Let_def split: sum.splits)
  let ?new = "not_neighbors ?self ss (are_free ?self ss found)"
  note e = get_distances_frame [OF g]
  have s2: "sprops s2 = sprops ?self" "estimate s2 = estimate ?self"
    "neighbors s2 = neighbors ?self @ ?new" "index s2 = index ?self"
    by (subst e, simp)+
  from find_neighbors_ok [OF f sh] N
  have fo: "distinct found" "\<forall>i\<in>set found. 0 \<le> i \<and> i < int N" by auto
  have filt: "\<forall>n\<in>set ?new. \<not> in_estimate ?self n ss \<and> \<not> is_neighbor ?self n ss"
    by (auto simp: not_neighbors_def are_free_def)
  have dn: "distinct ?new" using fo(1) by (simp add: not_neighbors_def are_free_def)
  have rn: "\<forall>n\<in>set ?new. 0 \<le> n \<and> n < int N"
    using fo(2) by (auto simp: not_neighbors_def are_free_def)
  from ok k have o: "own_ok N ?self" by simp
  have "own_ok N s2"
    by (rule own_extend [OF k _ _ _ _ _ _ _ filt dn rn s2])
       (use o in \<open>auto simp: own_ok_def\<close>)
  with ok have a: "\<forall>s\<in>set (ss[k := s2]). own_ok N s" by (rule all_update)
  from est_total_update [OF k, of s2] s2(2) have "est_total (ss[k := s2]) = est_total ss" by simp
  with a r show ?thesis by simp
qed

lemma accrete_own:
  assumes un: "update_neighbors lib m (ss[k := s1]) k idx = Inr ss'" and k: "k < length ss"
    and s1: "s1 = (ss ! k)\<lparr>estimate := estimate (ss ! k) @ [idx], reg := r\<rparr>"
    and idx: "idx \<in> set (neighbors (ss ! k))"
    and sh: "shape m = (nz, ny, nx)" "0 < nx" "0 < ny" and N: "length (cells m) = N"
    and ok: "\<forall>s\<in>set ss. own_ok N s"
  shows "(\<forall>s\<in>set ss'. own_ok N s) \<and> est_total ss' = Suc (est_total ss) \<and> length ss' = length ss"
proof -
  let ?ss1 = "ss[k := s1]"
  from k have self1: "?ss1 ! k = s1" and k1: "k < length ?ss1" by simp_all
  from update_neighbors_shape [OF un] self1 obtain s2 found where
    r: "ss' = ?ss1[k := s2]" and f: "find_neighbors m idx = Inr found"
    and e: "s2 = s1\<lparr>neighbors := remove1 idx (neighbors s1)
                           @ not_neighbors s1 ?ss1 (are_free s1 ?ss1 found),
                     distance := distance s2\<rparr>" by auto
  let ?new = "not_neighbors s1 ?ss1 (are_free s1 ?ss1 found)"
  have s2: "sprops s2 = sprops (?ss1 ! k)" "estimate s2 = estimate (?ss1 ! k)"
    "neighbors s2 = remove1 idx (neighbors s1) @ ?new" "index s2 = index (?ss1 ! k)"
    unfolding self1 by (subst e, simp)+
  from find_neighbors_ok [OF f sh] N
  have fo: "distinct found" "\<forall>i\<in>set found. 0 \<le> i \<and> i < int N" by auto
  have filt: "\<forall>n\<in>set ?new. \<not> in_estimate (?ss1 ! k) n ?ss1 \<and> \<not> is_neighbor (?ss1 ! k) n ?ss1"
    unfolding self1 by (auto simp: not_neighbors_def are_free_def)
  have dn: "distinct ?new" using fo(1) by (simp add: not_neighbors_def are_free_def)
  have rn: "\<forall>n\<in>set ?new. 0 \<le> n \<and> n < int N"
    using fo(2) by (auto simp: not_neighbors_def are_free_def)
  from ok k have o: "own_ok N (ss ! k)" by simp
  have o1: "sprops s1 \<noteq> []" "distinct (estimate s1)"
    "\<forall>n\<in>set (estimate s1). n = index s1 \<or> (0 \<le> n \<and> n < int N)"
    "distinct (remove1 idx (neighbors s1))"
    "set (remove1 idx (neighbors s1)) \<subseteq> set (neighbors s1)"
    "set (remove1 idx (neighbors s1)) \<inter> set (estimate s1) = {}"
    "\<forall>n\<in>set (remove1 idx (neighbors s1)). 0 \<le> n \<and> n < int N"
    using o idx unfolding own_ok_def s1 by (auto dest: notin_set_remove1)
  have "own_ok N s2"
    by (rule own_extend [OF k1 _ _ _ _ _ _ _ filt dn rn s2])
       (use o1 in \<open>simp_all add: self1\<close>)
  with ok have a: "\<forall>s\<in>set (ss[k := s2]). own_ok N s" by (rule all_update)
  from est_total_update [OF k, of s2] s2(2) self1
  have "est_total (ss[k := s2]) = Suc (est_total ss)" by (simp add: s1)
  with a r show ?thesis by simp
qed

lemma grow_mesh:
  assumes "grow lib st k goal mf = Inr (st', ch)"
  shows "mframe (h_mesh st) (h_mesh st')"
proof -
  let ?self = "h_seeds st ! k"
  from assms obtain m' ds' misfits goals where
    td: "testdrive_all lib (h_mesh st) (h_dms st) (sprops ?self) (neighbors ?self) = Inr (m', ds', misfits)"
    and cg: "candidate_goals ?self (py_sum (map reg (h_seeds st))) (neighbors ?self) misfits = Inr goals"
    unfolding grow_def Let_def by (simp split: sum.splits prod.splits)
  have "h_mesh st' = m'"
  proof (cases "judge ?self goals misfits goal mf")
    case None
    with assms td cg show ?thesis unfolding grow_def Let_def by auto
  next
    case (Some a)
    obtain i g v where a: "a = (i, g, v)" by (cases a)
    from assms td cg Some a obtain dn where dn: "distance ?self (neighbors ?self ! i) = Some dn"
      unfolding grow_def Let_def by (simp split: option.splits)
    from assms td cg Some a dn obtain seeds' where
      un: "update_neighbors lib m'
          ((h_seeds st)[k := ?self\<lparr>estimate := estimate ?self @ [neighbors ?self ! i],
                                   reg := reg ?self + mu ?self * dn\<rparr>]) k (neighbors ?self ! i)
           = Inr seeds'"
      unfolding grow_def Let_def by (simp split: sum.splits)
    from assms td cg Some a dn un show ?thesis unfolding grow_def Let_def by auto
  qed
  with testdrive_all_frame [OF td] show ?thesis by simp
qed

lemma seed_pass_mesh:
  assumes "seed_pass lib st grew [k] = Inr (st', grew')"
  shows "mframe (h_mesh st) (h_mesh st')"
proof (cases "grow lib st k (last (h_goals st)) (last (h_misfits st))")
  case (Inl e)
  with assms show ?thesis by simp
next
  case (Inr r)
  obtain st1 ch where r: "r = (st1, ch)" by (cases r)
  from grow_mesh [OF Inr [unfolded r]] have f1: "mframe (h_mesh st) (h_mesh st1)" .
  show ?thesis
  proof (cases ch)
    case None
    with assms Inr r f1 show ?thesis by simp
  next
    case (Some c)
    obtain params g v where c: "c = (params, g, v)" by (cases c)
    from assms Inr r Some c obtain m2 ds2 where
      ua: "update_all lib (h_mesh st1) (h_dms st1) params = Inr (m2, ds2)"
      and st': "st' = st1\<lparr>h_mesh := m2, h_dms := ds2, h_goals := h_goals st1 @ [g],
                  h_misfits := h_misfits st1 @ [v]\<rparr>"
      by (auto split: sum.splits)
    from update_all_frame [OF ua] f1 st' show ?thesis by (auto intro: mframe_trans)
  qed
qed

lemma seed_pass_single_inv:
  assumes sp: "seed_pass lib st grew [k] = Inr (st', grew')" and k: "k < length (h_seeds st)"
    and inv: "solver_inv N st"
  shows "solver_inv N st' \<and> length (h_seeds st') = length (h_seeds st) \<and>
         est_total (h_seeds st) \<le> est_total (h_seeds st') \<and>
         (grew' \<longrightarrow> grew \<or> est_total (h_seeds st) < est_total (h_seeds st'))"
proof -
  obtain nz ny nx where sh: "shape (h_mesh st) = (nz, ny, nx)" by (cases "shape (h_mesh st)")
  from inv sh have pos: "0 < nx" "0 < ny" and N: "length (cells (h_mesh st)) = N"
    and ok: "\<forall>s\<in>set (h_seeds st). own_ok N s"
    and cnt: "length (h_goals st) + length (h_seeds st) = Suc (est_total (h_seeds st))"
    by (auto simp: solver_inv_def)
  from seed_pass_mesh [OF sp] sh N
  have sh': "shape (h_mesh st') = (nz, ny, nx)" and N': "length (cells (h_mesh st')) = N"
    by (auto simp: mframe_def)
  from seed_pass_single [OF sp] obtain st1 ch where
    g: "grow lib st k (last (h_goals st)) (last (h_misfits st)) = Inr (st1, ch)"
    and s: "h_seeds st' = h_seeds st1"
    and c: "(ch = None \<and> h_goals st' = h_goals st1 \<and> grew' = grew) \<or>
            (ch \<noteq> None \<and> length (h_goals st') = Suc (length (h_goals st1)) \<and> grew')"
    by blast
  from grow_mesh [OF g] sh N
  have sh1: "shape (h_mesh st1) = (nz, ny, nx)" and N1: "length (cells (h_mesh st1)) = N"
    by (auto simp: mframe_def)
  from g show ?thesis
  proof (cases rule: grow_cases)
    case none
    with c have "h_goals st' = h_goals st" "grew' = grew" by auto
    with none s sh' N' pos ok cnt show ?thesis by (simp add: solver_inv_def)
  next
    case (some idx gl v r)
    with c have gl: "length (h_goals st') = Suc (length (h_goals st))" by auto
    from accrete_own [OF some(3) k refl some(2) sh1 pos N1 ok] s
    have a: "\<forall>s\<in>set (h_seeds st'). own_ok N s"
      "est_total (h_seeds st') = Suc (est_total (h_seeds st))"
      "length (h_seeds st') = length (h_seeds st)" by simp_all
    with gl sh' N' pos cnt show ?thesis by (simp add: solver_inv_def)
  qed
qed

lemma seed_pass_inv:
  assumes "seed_pass lib st grew ks = Inr (st', grew')" and "\<forall>k\<in>set ks. k < length (h_seeds st)"
    and "solver_inv N st"
  shows "solver_inv N st' \<and> length (h_seeds st') = length (h_seeds st) \<and>
         est_total (h_seeds st) \<le> est_total (h_seeds st') \<and>
         (grew' \<longrightarrow> grew \<or> est_total (h_seeds st) < est_total (h_seeds st'))"
  using assms
proof (induction ks arbitrary: st grew)
  case Nil
  then show ?case by simp
next
  case (Cons k ks)
  from seed_pass_split [OF Cons.prems(1)] obtain st1 g1 where
    a: "seed_pass lib st grew [k] = Inr (st1, g1)" and b: "seed_pass lib st1 g1 ks = Inr (st', grew')"
    by blast
  from Cons.prems(2) have k: "k < length (h_seeds st)" by simp
  from seed_pass_single_inv [OF a k Cons.prems(3)]
  have i1: "solver_inv N st1" and l1: "length (h_seeds st1) = length (h_seeds st)"
    and e1: "est_total (h_seeds st) \<le> est_total (h_seeds st1)"
    and g1: "g1 \<longrightarrow> grew \<or> est_total (h_seeds st) < est_total (h_seeds st1)" by blast+
  from l1 Cons.prems(2) have "\<forall>k\<in>set ks. k < length (h_seeds st1)" by simp
  from Cons.IH [OF b this i1]
  have i2: "solver_inv N st'" and l2: "length (h_seeds st') = length (h_seeds st1)"
    and e2: "est_total (h_seeds st1) \<le> est_total (h_seeds st')"
    and g2: "grew' \<longrightarrow> g1 \<or> est_total (h_seeds st1) < est_total (h_seeds st')" by blast+
  from i2 l1 l2 e1 e2 g1 g2 show ?case by auto
qed

lemma own_ok_length:
  assumes "own_ok N s"
  shows "length (estimate s) \<le> Suc N"
proof -
  from assms have d: "distinct (estimate s)"
    and r: "set (estimate s) \<subseteq> insert (index s) {0..<int N}"
    by (auto simp: own_ok_def)
  from d have "length (estimate s) = card (set (estimate s))" by (simp add: distinct_card)
  also from r have "\<dots> \<le> card (insert (index s) {0..<int N})" by (intro card_mono) auto
  also have "\<dots> \<le> Suc N" by (simp add: card_insert_if)
  finally show ?thesis .
qed

lemma est_total_bound:
  assumes "\<forall>s\<in>set ss. own_ok N s"
  shows "est_total ss \<le> length ss * Suc N"
  using assms unfolding est_total_def
proof (induction ss)
  case Nil
  then show ?case by simp
next
  case (Cons s ss)
  from Cons.prems own_ok_length [of N s] have "length (estimate s) \<le> Suc N" by simp
  with Cons show ?case by simp
qed

lemma reaches_trans:
  assumes "solver_reaches lib b c" and "solver_reaches lib a b"
  shows "solver_reaches lib a c"
  using assms
proof (induction rule: solver_reaches.induct)
  case start
  then show ?case by simp
next
  case (attempt st k grew st' grew')
  from solver_reaches.attempt [OF attempt.IH [OF attempt.prems] attempt.hyps(2,3)] show ?case .
qed

lemma solver_terminates:
  assumes "solver_inv N st"
  shows "\<exists>r. harvest_solver lib st = Some r \<and>
           (\<forall>st'. r = Inr st' \<longrightarrow> solver_inv N st' \<and> length (h_seeds st') = length (h_seeds st) \<and>
              (\<exists>s. solver_reaches lib st s \<and>
                   seed_pass lib s False [0..<length (h_seeds s)] = Inr (st', False)))"
  using assms
proof (induction "length (h_seeds st) * Suc N - est_total (h_seeds st)" arbitrary: st rule: less_induct)
  case less
  show ?case
  proof (cases "seed_pass lib st False [0..<length (h_seeds st)]")
    case (Inl e)
    then have "harvest_solver lib st = Some (Inl e)" by (subst harvest_solver.simps) simp
    then show ?thesis by simp
  next
    case (Inr q)
    obtain st1 grew where q: "q = (st1, grew)" by (cases q)
    from seed_pass_inv [OF Inr [unfolded q] _ less.prems]
    have i1: "solver_inv N st1" and l1: "length (h_seeds st1) = length (h_seeds st)"
      and g1: "grew \<longrightarrow> est_total (h_seeds st) < est_total (h_seeds st1)" by auto
    show ?thesis
    proof (cases grew)
      case False
      with Inr q have "harvest_solver lib st = Some (Inr st1)"
        by (subst harvest_solver.simps) simp
      with i1 l1 Inr q False solver_reaches.start [of lib st] show ?thesis by auto
    next
      case True
      with Inr q have eq: "harvest_solver lib st = harvest_solver lib st1"
        by (subst harvest_solver.simps) simp
      from i1 have "est_total (h_seeds st1) \<le> length (h_seeds st1) * Suc N"
        by (intro est_total_bound) (simp add: solver_inv_def)
      with g1 True l1
      have "length (h_seeds st1) * Suc N - est_total (h_seeds st1)
            < length (h_seeds st) * Suc N - est_total (h_seeds st)" by simp
      from less.hyps [OF this i1] obtain r where
        r: "harvest_solver lib st1 = Some r"
        and fin: "\<forall>st'. r = Inr st' \<longrightarrow> solver_inv N st' \<and> length (h_seeds st') = length (h_seeds st1) \<and>
              (\<exists>s. solver_reaches lib st1 s \<and>
                   seed_pass lib s False [0..<length (h_seeds s)] = Inr (st', False))" by blast
      from seed_pass_reaches [OF Inr [unfolded q] solver_reaches.start]
      have r1: "solver_reaches lib st st1" by simp
      have "\<forall>st'. r = Inr st' \<longrightarrow> solver_inv N st' \<and> length (h_seeds st') = length (h_seeds st) \<and>
              (\<exists>s. solver_reaches lib st s \<and>
                   seed_pass lib s False [0..<length (h_seeds s)] = Inr (st', False))"
        using fin l1 r1 by (auto intro: reaches_trans)
      with r eq show ?thesis by simp
    qed
  qed
qed

lemma initialize_all_own:
  assumes "initialize_all lib m ss ks = Inr ss'" and "\<forall>k\<in>set ks. k < length ss"
    and sh: "shape m = (nz, ny, nx)" "0 < nx" "0 < ny" and N: "length (cells m) = N"
    and "\<forall>s\<in>set ss. own_ok N s"
  shows "(\<forall>s\<in>set ss'. own_ok N s) \<and> est_total ss' = est_total ss \<and> length ss' = length ss"
  using assms(1,2,7)
proof (induction ks arbitrary: ss)
  case Nil
  then show ?case by simp
next
  case (Cons k ks)
  from Cons.prems(1) obtain s1 where
    a: "initialize lib m ss k = Inr s1" and b: "initialize_all lib m s1 ks = Inr ss'"
    by (auto split: sum.splits)
  from Cons.prems(2) have k: "k < length ss" by simp
  from initialize_own [OF a k sh N Cons.prems(3)]
  have o1: "\<forall>s\<in>set s1. own_ok N s" and e1: "est_total s1 = est_total ss"
    and l1: "length s1 = length ss" by simp_all
  from l1 Cons.prems(2) have "\<forall>k\<in>set ks. k < length s1" by simp
  from Cons.IH [OF b this o1] e1 l1 show ?case by simp
qed

lemma est_total_fresh:
  "\<forall>s\<in>set ss. estimate s = [index s] \<Longrightarrow> est_total ss = length ss"
  unfolding est_total_def by (induction ss) auto

lemma prepare_inv:
  assumes prep: "harvest_prepare lib m dms seeds = Inr st0"
    and sh: "shape m = (nz, ny, nx)" "0 < nx" "0 < ny"
    and fresh: "\<forall>s\<in>set seeds. neighbors s = [] \<and> estimate s = [index s] \<and> sprops s \<noteq> []"
  shows "solver_inv (length (cells m)) st0 \<and> length (h_seeds st0) = length seeds"
proof -
  let ?N = "length (cells m)"
  from fresh have ok: "\<forall>s\<in>set seeds. own_ok ?N s" by (auto simp: own_ok_def)
  from fresh have et: "est_total seeds = length seeds" by (intro est_total_fresh) simp
  from prep obtain seeds' m' dms' where
    ia: "initialize_all lib m seeds [0..<length seeds] = Inr seeds'"
    and idm: "init_dms lib (to_float lib (int (length dms))) m dms seeds' = Inr (m', dms')"
    and st0: "h_mesh st0 = m'" "h_seeds st0 = seeds'" "length (h_goals st0) = 1"
    by (auto simp: harvest_prepare_def Let_def split: list.splits if_splits sum.splits prod.splits)
  from initialize_all_own [OF ia _ sh refl ok]
  have o1: "\<forall>s\<in>set seeds'. own_ok ?N s" and e1: "est_total seeds' = est_total seeds"
    and l1: "length seeds' = length seeds" by simp_all
  from init_dms_frame [OF idm] sh
  have "shape m' = (nz, ny, nx)" "length (cells m') = ?N" by (auto simp: mframe_def)
  with o1 e1 l1 et st0 sh(2,3) show ?thesis by (simp add: solver_inv_def)
qed

lemma SeedPrism_init_fresh:
  "SeedPrism_init lib idx ps m mu0 dlt rel = Inr s \<Longrightarrow>
   neighbors s = [] \<and> estimate s = [index s] \<and> sprops s = ps"
  by (auto simp: SeedPrism_init_def Let_def split: prod.splits if_splits)

lemma harvest_returns:
  assumes sh: "shape m = (nz, ny, nx)" "0 < nx" "0 < ny"
    and fresh: "\<forall>s\<in>set seeds. neighbors s = [] \<and> estimate s = [index s] \<and> sprops s \<noteq> []"
  shows "\<exists>r. harvest lib m dms seeds False = Some r \<and>
           (\<forall>est st'. r = Inr (est, st') \<longrightarrow>
              length (h_goals st') - 1 \<le> length seeds * length (cells m) \<and>
              (\<exists>st0 s. harvest_prepare lib m dms seeds = Inr st0 \<and> solver_reaches lib st0 s \<and>
                  seed_pass lib s False [0..<length (h_seeds s)] = Inr (st', False)))"
proof (cases "harvest_prepare lib m dms seeds")
  case (Inl e)
  then show ?thesis by (simp add: harvest_def)
next
  case (Inr st0)
  let ?N = "length (cells m)"
  from prepare_inv [OF Inr sh fresh]
  have i0: "solver_inv ?N st0" and l0: "length (h_seeds st0) = length seeds" by simp_all
  from solver_terminates [OF i0, of lib] obtain r where
    r: "harvest_solver lib st0 = Some r"
    and fin: "\<forall>st'. r = Inr st' \<longrightarrow> solver_inv ?N st' \<and> length (h_seeds st') = length (h_seeds st0) \<and>
              (\<exists>s. solver_reaches lib st0 s \<and>
                   seed_pass lib s False [0..<length (h_seeds s)] = Inr (st', False))" by blast
  show ?thesis
  proof (cases r)
    case (Inl e)
    with Inr r show ?thesis by (simp add: harvest_def)
  next
    case st': (Inr st')
    with fin have i: "solver_inv ?N st'" and l: "length (h_seeds st') = length seeds"
      and pass: "\<exists>s. solver_reaches lib st0 s \<and>
                   seed_pass lib s False [0..<length (h_seeds s)] = Inr (st', False)"
      using l0 by auto
    from i have "est_total (h_seeds st') \<le> length (h_seeds st') * Suc ?N"
      by (intro est_total_bound) (simp add: solver_inv_def)
    moreover from i have "length (h_goals st') + length (h_seeds st') = Suc (est_total (h_seeds st'))"
      by (simp add: solver_inv_def)
    ultimately have "length (h_goals st') - 1 \<le> length seeds * ?N" using l by simp
    with Inr r st' pass show ?thesis by (simp add: harvest_def)
  qed
qed

section \<open>Seeds too close in the matrix formulation\<close>

lemmas pgrav3d_eval = pgrav3d_grow_init_def get_seed_def array_set_def array_get_def
  add_neighbors_def neighbor_candidates_def both_def all3_def List.map_filter_simps Let_def

text \<open>
  Two seeds of different density that are too close are detected.
\<close>

lemma two_close_seeds_raise:
  "pgrav3d_grow_init (1, 2, 4) [get_seed 0 1, get_seed 2 2] = Inl AttributeError"
  by (simp add: pgrav3d_eval)

text \<open>
  C8. Two seeds of different density whose frontiers share a candidate are claimed to
  make the run fail. The conflict resolution removes from the list it walks over, and
  the element after a removed one is never examined. On a mesh of shape (1, 2, 4) with
  seeds of density 1 on cells 0 and 4 and seeds of density 2 on cells 2 and 7, no failure
  is raised, and the frontiers of the first seed (density 1) and of the third (density 2)
  both keep cell 5.
\<close>

theorem unresolved_conflict_is_not_raised:
  "map_sum id (\<lambda>r. map (\<lambda>s. (density s, mneighbors s)) (fst r))
     (pgrav3d_grow_init (1, 2, 4) [get_seed 0 1, get_seed 4 1, get_seed 2 2, get_seed 7 2])
   = Inr [(1, [5]), (1, [1]), (2, [1, 5]), (2, [6, 3])]"
  by (simp add: pgrav3d_eval)

end
